theory Spec2Isabelle
  imports Main "HOL-Library.Log_Nat"
begin

section \<open>Data model\<close>

text \<open>
  The embedding follows the job-tracked server (the second program text of
  \<^verbatim>\<open>src/server.js\<close>): \<^verbatim>\<open>convertToWebP\<close>, the handlers of
  \<^verbatim>\<open>/convert-folder-structure\<close>, \<^verbatim>\<open>/status/:jobId\<close> and \<^verbatim>\<open>/download/:jobId\<close>, and
  \<^verbatim>\<open>processFilesAsync\<close> with its local functions \<^verbatim>\<open>countPngs\<close> and
  \<^verbatim>\<open>processDirectory\<close>.

  Buffers are lists of byte values. A JavaScript exception is a value of type \<open>exn\<close>;
  \<open>message\<close> is its \<^verbatim>\<open>.message\<close>. \<open>CompressionFailed\<close> is the \<^verbatim>\<open>Error\<close> thrown by
  \<^verbatim>\<open>convertToWebP\<close> itself; the other constructors are exceptions raised by the libraries
  the code calls (sharp, adm-zip, fs), each carrying the library's message.
\<close>

type_synonym bytes = "nat list"

datatype exn =
    CompressionFailed
  | CodecError string
  | ArchiveError string
  | FilesystemError string

fun message :: "exn \<Rightarrow> string" where
  "message CompressionFailed = ''Could not compress image under 2MB''"
| "message (CodecError m) = m"
| "message (ArchiveError m) = m"
| "message (FilesystemError m) = m"

text \<open>
  The codec \<^verbatim>\<open>sharp(buffer).webp({quality, lossless: false}).toBuffer()\<close> is a black box:
  it returns the encoded bytes or throws with a message.
\<close>

type_synonym codec = "bytes \<Rightarrow> int \<Rightarrow> string + bytes"

definition maxSize :: nat where
  "maxSize = 2 * 1024 * 1024"

section \<open>The quality search\<close>

text \<open>
  \<^verbatim>\<open>async function convertToWebP(buffer, quality = 90)\<close>. The quality is a JavaScript
  number that only takes the integer values 90, 80, ...; it is an \<open>int\<close> here.
\<close>

function convertToWebP :: "codec \<Rightarrow> bytes \<Rightarrow> int \<Rightarrow> exn + bytes" where
  "convertToWebP sharp buffer quality =
     (if quality < 10 then Inl CompressionFailed
      else case sharp buffer quality of
             Inl m \<Rightarrow> Inl (CodecError m)
           | Inr webpBuffer \<Rightarrow>
               if length webpBuffer > maxSize
               then convertToWebP sharp buffer (quality - 10)
               else Inr webpBuffer)"
  by pat_completeness auto
termination
  by (relation "measure (\<lambda>(sharp, buffer, quality). nat quality)") auto

text \<open>
  The same recursion, recording the quality of every codec invocation in the order in
  which \<^verbatim>\<open>convertToWebP\<close> makes them.
\<close>

function levelsTried :: "codec \<Rightarrow> bytes \<Rightarrow> int \<Rightarrow> int list" where
  "levelsTried sharp buffer quality =
     (if quality < 10 then []
      else quality #
        (case sharp buffer quality of
           Inl m \<Rightarrow> []
         | Inr webpBuffer \<Rightarrow>
             if length webpBuffer > maxSize
             then levelsTried sharp buffer (quality - 10)
             else []))"
  by pat_completeness auto
termination
  by (relation "measure (\<lambda>(sharp, buffer, quality). nat quality)") auto

declare convertToWebP.simps [simp del] levelsTried.simps [simp del]

text \<open>Every caller uses the default quality: \<^verbatim>\<open>await convertToWebP(fileBuffer)\<close>.\<close>

definition convert :: "codec \<Rightarrow> bytes \<Rightarrow> exn + bytes" where
  "convert sharp buffer = convertToWebP sharp buffer 90"

definition convertLevels :: "codec \<Rightarrow> bytes \<Rightarrow> int list" where
  "convertLevels sharp buffer = levelsTried sharp buffer 90"

definition oversize :: "codec \<Rightarrow> bytes \<Rightarrow> int \<Rightarrow> bool" where
  "oversize sharp buffer q =
     (case sharp buffer q of Inl m \<Rightarrow> False | Inr w \<Rightarrow> length w > maxSize)"

text \<open>Codecs used as concrete inputs.\<close>

definition rejectingCodec :: codec where
  "rejectingCodec buffer quality = Inl ''Input buffer contains unsupported image format''"

definition pickyCodec :: codec where
  "pickyCodec buffer quality =
     (if buffer = [0] then Inl ''Input buffer contains unsupported image format''
      else Inr [82, 73, 70, 70])"

definition bloatingCodec :: codec where
  "bloatingCodec buffer quality = Inr (replicate (maxSize + 1) 0)"

definition steppedCodec :: codec where
  "steppedCodec buffer quality =
     (if length buffer = 0 then Inr [82, 73, 70, 70]
      else if 50 < quality then Inr (replicate (maxSize + 1) 0)
      else Inr [82, 73, 70, 70])"

section \<open>JavaScript number arithmetic\<close>

text \<open>
  The progress value is computed in double precision:
  \<^verbatim>\<open>Math.min(90, 10 + Math.floor((processedPngs / totalPngs) * 70))\<close>.
  Exact integer division is not the same function: for 47 files of 70 the double
  product is just below 47 and the floor is 46. So the two rounded operations are modelled.

  A finite double is a rational. \<open>toDouble x\<close> is the double nearest to a non-negative
  rational \<open>x\<close>, ties to even, with a 53-bit significand: \<open>binade x\<close> is the exponent
  \<open>e\<close> with \<open>2^52 \<le> x / 2^e < 2^53\<close>, and the significand is \<open>x / 2^e\<close> rounded to an
  integer. The exponent range is not bounded; the quotients and products of file counts
  that occur are far from overflow and underflow. File counts are below \<open>2^53\<close>, so the
  counters themselves are exact.
\<close>

definition roundTiesToEven :: "rat \<Rightarrow> int" where
  "roundTiesToEven y =
     (let f = \<lfloor>y\<rfloor>; d = y - of_int f
      in if d < 1 / 2 then f
         else if 1 / 2 < d then f + 1
         else if even f then f else f + 1)"

definition binade :: "rat \<Rightarrow> int" where
  "binade x =
     (let (a, b) = quotient_of x;
          e0 = bitlen a - bitlen b - 53
      in if x < 2 ^ 53 * power_int 2 e0 then e0 else e0 + 1)"

definition toDouble :: "rat \<Rightarrow> rat" where
  "toDouble x =
     (if x \<le> 0 then 0
      else let e = binade x
           in of_int (roundTiesToEven (x / power_int 2 e)) * power_int 2 e)"

text \<open>
  \<^verbatim>\<open>const progress = Math.min(90, 10 + Math.floor((processedPngs / totalPngs) * 70))\<close>,
  evaluated after \<^verbatim>\<open>processedPngs++\<close>, so \<open>processedPngs \<ge> 1\<close>. With
  \<open>totalPngs = 0\<close> the quotient is \<^verbatim>\<open>Infinity\<close> and the minimum is 90.
\<close>

definition progressOf :: "nat \<Rightarrow> nat \<Rightarrow> nat" where
  "progressOf processedPngs totalPngs =
     (if totalPngs = 0 then 90
      else min 90 (10 + nat \<lfloor>toDouble (toDouble (of_nat processedPngs / of_nat totalPngs) * 70)\<rfloor>))"

section \<open>Paths, names and the extracted tree\<close>

text \<open>\<^verbatim>\<open>path.join(dir, name)\<close> for a directory and one name.\<close>

definition join :: "string \<Rightarrow> string \<Rightarrow> string" where
  "join dir name = dir @ ''/'' @ name"

text \<open>
  \<^verbatim>\<open>path.extname\<close> on a single name (a directory listing has no separators): the text
  from the last dot on; empty when there is no dot, when the only dot is the first
  character, and for \<^verbatim>\<open>..\<close>. \<^verbatim>\<open>path.parse(name).name\<close> is the name without it.
\<close>

definition extname :: "string \<Rightarrow> string" where
  "extname p =
     (let ext = rev (takeWhile (\<lambda>c. c \<noteq> CHR ''.'') (rev p))
      in if CHR ''.'' \<notin> set p then ''''
         else if length ext + 1 = length p then ''''
         else if p = ''..'' then ''''
         else CHR ''.'' # ext)"

definition parseName :: "string \<Rightarrow> string" where
  "parseName p = take (length p - length (extname p)) p"

definition toLowerChar :: "char \<Rightarrow> char" where
  "toLowerChar c =
     (let n = (of_char c :: nat) in if 65 \<le> n \<and> n \<le> 90 then char_of (n + 32) else c)"

definition toLowerCase :: "string \<Rightarrow> string" where
  "toLowerCase s = map toLowerChar s"

text \<open>\<^verbatim>\<open>path.extname(item).toLowerCase() === ".png"\<close>\<close>

definition isPng :: "string \<Rightarrow> bool" where
  "isPng item = (toLowerCase (extname item) = ''.png'')"

text \<open>
  What \<^verbatim>\<open>fs.readdirSync\<close> and \<^verbatim>\<open>fs.statSync\<close> report of the extracted directory: each
  entry is a directory with its own listing, a regular file with its contents, or
  something else (\<^verbatim>\<open>isDirectory()\<close> and \<^verbatim>\<open>isFile()\<close> both false).
\<close>

datatype entry =
    Dir string "entry list"
  | File string bytes
  | Special string

text \<open>\<^verbatim>\<open>Date.now().toString()\<close>: the decimal digits of the clock's milliseconds.\<close>

definition digitChar :: "nat \<Rightarrow> char" where
  "digitChar d = char_of (48 + d)"

function toString :: "nat \<Rightarrow> string" where
  "toString n = (if n < 10 then [digitChar n] else toString (n div 10) @ [digitChar (n mod 10)])"
  by pat_completeness auto
termination
  by (relation "measure id") auto

declare toString.simps [simp del]

definition digitValue :: "char \<Rightarrow> nat" where
  "digitValue c = of_char c - 48"

definition parseDecimal :: "string \<Rightarrow> nat" where
  "parseDecimal s = foldl (\<lambda>acc c. 10 * acc + digitValue c) 0 s"

section \<open>Job records, effects and the environment\<close>

datatype status = Extracting | Converting | Zipping | Completed | Failed

text \<open>
  The object stored under a job id. The code stores object literals with different sets
  of properties; a property that a literal does not have is \<open>None\<close>.
\<close>

record job =
  status :: status
  progress :: "nat option"
  processedFiles :: "nat option"
  totalFiles :: "nat option"
  tempDir :: string
  outputPath :: "string option"
  downloadUrl :: "string option"
  error :: "string option"

text \<open>The file-system calls of the job that change or read the disk.\<close>

datatype fsop =
    Mkdir string
  | ExtractAllTo string
  | WriteFile string bytes
  | CopyFile string string
  | WriteZip string
  | ReadFile string
  | Rm string

text \<open>
  The environment of a run: \<^verbatim>\<open>__dirname\<close>, the codec, what the uploaded buffer extracts
  to (or the message \<^verbatim>\<open>AdmZip\<close> throws with), and which file-system calls throw, with
  their messages. The calls that only read the extracted directory (\<^verbatim>\<open>readdirSync\<close>,
  \<^verbatim>\<open>statSync\<close>, \<^verbatim>\<open>readFileSync\<close>) return what the tree holds. \<open>existsOtherwise\<close> says
  which paths are on the disk for a reason other than a \<^verbatim>\<open>mkdirSync\<close> of this run that
  returned: they were there before, or a call that threw had made them already, or
  another task made them.
\<close>

record env =
  dirname :: string
  sharp :: codec
  extractAllTo :: "bytes \<Rightarrow> string + entry list"
  fsFault :: "fsop \<Rightarrow> string option"
  existsOtherwise :: "string \<Rightarrow> bool"

text \<open>
  The state a run threads: the counter \<^verbatim>\<open>processedPngs\<close>, the records passed to
  \<^verbatim>\<open>processingJobs.set(jobId, ...)\<close> so far (oldest first), and the file-system calls
  that succeeded so far.
\<close>

record wstate =
  processedPngs :: nat
  published :: "job list"
  fsops :: "fsop list"

definition tempDirOf :: "env \<Rightarrow> string \<Rightarrow> string" where
  "tempDirOf E jobId = join (join (dirname E) ''temp'') jobId"

definition extractDirOf :: "env \<Rightarrow> string \<Rightarrow> string" where
  "extractDirOf E jobId = join (tempDirOf E jobId) ''extracted''"

definition outputDirOf :: "env \<Rightarrow> string \<Rightarrow> string" where
  "outputDirOf E jobId = join (tempDirOf E jobId) ''output''"

definition outputZipPathOf :: "env \<Rightarrow> string \<Rightarrow> string" where
  "outputZipPathOf E jobId = join (tempDirOf E jobId) ''converted.zip''"

definition extractingJob :: "env \<Rightarrow> string \<Rightarrow> job" where
  "extractingJob E jobId =
     \<lparr>status = Extracting, progress = Some 0, processedFiles = None, totalFiles = None,
      tempDir = tempDirOf E jobId, outputPath = Some (outputZipPathOf E jobId),
      downloadUrl = None, error = None\<rparr>"

definition convertingJob :: "env \<Rightarrow> string \<Rightarrow> job" where
  "convertingJob E jobId =
     \<lparr>status = Converting, progress = Some 10, processedFiles = None, totalFiles = None,
      tempDir = tempDirOf E jobId, outputPath = Some (outputZipPathOf E jobId),
      downloadUrl = None, error = None\<rparr>"

definition convertedJob :: "env \<Rightarrow> string \<Rightarrow> nat \<Rightarrow> nat \<Rightarrow> job" where
  "convertedJob E jobId processed totalPngs =
     \<lparr>status = Converting, progress = Some (progressOf processed totalPngs),
      processedFiles = Some processed, totalFiles = Some totalPngs,
      tempDir = tempDirOf E jobId, outputPath = Some (outputZipPathOf E jobId),
      downloadUrl = None, error = None\<rparr>"

definition zippingJob :: "env \<Rightarrow> string \<Rightarrow> job" where
  "zippingJob E jobId =
     \<lparr>status = Zipping, progress = Some 90, processedFiles = None, totalFiles = None,
      tempDir = tempDirOf E jobId, outputPath = Some (outputZipPathOf E jobId),
      downloadUrl = None, error = None\<rparr>"

definition completedJob :: "env \<Rightarrow> string \<Rightarrow> nat \<Rightarrow> nat \<Rightarrow> job" where
  "completedJob E jobId processed totalPngs =
     \<lparr>status = Completed, progress = Some 100,
      processedFiles = Some processed, totalFiles = Some totalPngs,
      tempDir = tempDirOf E jobId, outputPath = Some (outputZipPathOf E jobId),
      downloadUrl = Some (''/download/'' @ jobId), error = None\<rparr>"

definition failedJob :: "env \<Rightarrow> string \<Rightarrow> string \<Rightarrow> job" where
  "failedJob E jobId msg =
     \<lparr>status = Failed, progress = None, processedFiles = None, totalFiles = None,
      tempDir = tempDirOf E jobId, outputPath = None,
      downloadUrl = None, error = Some msg\<rparr>"

definition setJob :: "job \<Rightarrow> wstate \<Rightarrow> wstate" where
  "setJob r s = s\<lparr>published := published s @ [r]\<rparr>"

text \<open>A file-system call of the driver: it throws, or it is done and recorded.\<close>

definition fsCall :: "env \<Rightarrow> fsop \<Rightarrow> wstate \<Rightarrow> exn option \<times> wstate" where
  "fsCall E op s =
     (case fsFault E op of
        Some m \<Rightarrow> (Some (FilesystemError m), s)
      | None \<Rightarrow> (None, s\<lparr>fsops := fsops s @ [op]\<rparr>))"

text \<open>
  \<^verbatim>\<open>fs.existsSync(p)\<close> for a directory \<open>p\<close> after the calls made so far: \<open>p\<close> is there when
  a \<^verbatim>\<open>mkdirSync(d, { recursive: true })\<close> of the run returned for \<open>p\<close> itself or for a
  directory \<open>d\<close> below it, or when it is there otherwise.
\<close>

definition madeBy :: "string \<Rightarrow> fsop \<Rightarrow> bool" where
  "madeBy p op =
     (case op of
        Mkdir d \<Rightarrow> d = p \<or> take (length p + 1) d = p @ ''/''
      | _ \<Rightarrow> False)"

definition existsSync :: "env \<Rightarrow> wstate \<Rightarrow> string \<Rightarrow> bool" where
  "existsSync E s p = (existsOtherwise E p \<or> list_ex (madeBy p) (fsops s))"

section \<open>The orchestrator: \<^verbatim>\<open>processFilesAsync\<close>\<close>

text \<open>
  \<^verbatim>\<open>countPngs(dir)\<close> adds to the counter \<^verbatim>\<open>totalPngs\<close>, which is the second argument
  and the result. It tests \<^verbatim>\<open>isDirectory()\<close> and then the extension only.
\<close>

function (sequential) countPngs :: "entry list \<Rightarrow> nat \<Rightarrow> nat" where
  "countPngs [] totalPngs = totalPngs"
| "countPngs (Dir item children # rest) totalPngs =
     countPngs rest (countPngs children totalPngs)"
| "countPngs (File item fileBuffer # rest) totalPngs =
     countPngs rest (if isPng item then totalPngs + 1 else totalPngs)"
| "countPngs (Special item # rest) totalPngs =
     countPngs rest (if isPng item then totalPngs + 1 else totalPngs)"
  by pat_completeness auto
termination
  by (relation "measure (\<lambda>(items, totalPngs). size_list size items)") auto

text \<open>
  The body of the \<^verbatim>\<open>try\<close> block for one PNG file, with its \<^verbatim>\<open>catch\<close>: the file is
  converted and written, then the counter is incremented and the record published. An
  exception of \<^verbatim>\<open>convertToWebP\<close> or of \<^verbatim>\<open>fs.writeFileSync\<close> is caught and logged, and
  the state is as before. (The garbage-collection hint and the 50 ms pause change no state.)
\<close>

definition convertFile ::
  "env \<Rightarrow> string \<Rightarrow> nat \<Rightarrow> string \<Rightarrow> string \<Rightarrow> bytes \<Rightarrow> wstate \<Rightarrow> wstate" where
  "convertFile E jobId totalPngs outputDir item fileBuffer s =
     (case convert (sharp E) fileBuffer of
        Inl conversionError \<Rightarrow> s
      | Inr webpBuffer \<Rightarrow>
          (let webpPath = join outputDir (parseName item @ ''.webp'')
           in (case fsFault E (WriteFile webpPath webpBuffer) of
                 Some m \<Rightarrow> s
               | None \<Rightarrow>
                   setJob (convertedJob E jobId (processedPngs s + 1) totalPngs)
                     (s\<lparr>processedPngs := processedPngs s + 1,
                        fsops := fsops s @ [WriteFile webpPath webpBuffer]\<rparr>))))"

text \<open>
  \<^verbatim>\<open>processDirectory(sourceDir, outputDir)\<close> over the listing of \<open>sourceDir\<close>. The result
  is the exception that left the loop, if any, and the state reached.
\<close>

function (sequential) processDirectory ::
  "env \<Rightarrow> string \<Rightarrow> nat \<Rightarrow> string \<Rightarrow> string \<Rightarrow> entry list \<Rightarrow> wstate
     \<Rightarrow> exn option \<times> wstate" where
  "processDirectory E jobId totalPngs sourceDir outputDir [] s = (None, s)"
| "processDirectory E jobId totalPngs sourceDir outputDir (Dir item children # rest) s =
     (case fsCall E (Mkdir (join outputDir item)) s of
        (Some e, s1) \<Rightarrow> (Some e, s1)
      | (None, s1) \<Rightarrow>
          (case processDirectory E jobId totalPngs
                  (join sourceDir item) (join outputDir item) children s1 of
             (Some e, s2) \<Rightarrow> (Some e, s2)
           | (None, s2) \<Rightarrow> processDirectory E jobId totalPngs sourceDir outputDir rest s2))"
| "processDirectory E jobId totalPngs sourceDir outputDir (File item fileBuffer # rest) s =
     (if isPng item
      then processDirectory E jobId totalPngs sourceDir outputDir rest
             (convertFile E jobId totalPngs outputDir item fileBuffer s)
      else (case fsCall E (CopyFile (join sourceDir item) (join outputDir item)) s of
              (Some e, s1) \<Rightarrow> (Some e, s1)
            | (None, s1) \<Rightarrow> processDirectory E jobId totalPngs sourceDir outputDir rest s1))"
| "processDirectory E jobId totalPngs sourceDir outputDir (Special item # rest) s =
     (case fsCall E (CopyFile (join sourceDir item) (join outputDir item)) s of
        (Some e, s1) \<Rightarrow> (Some e, s1)
      | (None, s1) \<Rightarrow> processDirectory E jobId totalPngs sourceDir outputDir rest s1)"
  by pat_completeness auto
termination
  by (relation "measure (\<lambda>(E, jobId, totalPngs, sourceDir, outputDir, items, s).
                            size_list size items)") auto

text \<open>
  The \<^verbatim>\<open>try\<close> block of \<^verbatim>\<open>processFilesAsync\<close>: the exception that left it, if any, and
  the state reached. \<^verbatim>\<open>new AdmZip(fileBuffer)\<close> and \<^verbatim>\<open>extractAllTo\<close> together are
  \<open>extractAllTo E\<close>; \<^verbatim>\<open>addDirectoryToZip\<close> and \<^verbatim>\<open>writeZip\<close> together are the call
  \<open>WriteZip\<close>, whose exception is an \<open>ArchiveError\<close>.
\<close>

definition tryBlock :: "env \<Rightarrow> string \<Rightarrow> bytes \<Rightarrow> exn option \<times> wstate" where
  "tryBlock E jobId fileBuffer =
     (let s0 = \<lparr>processedPngs = 0, published = [extractingJob E jobId], fsops = []\<rparr>
      in case fsCall E (Mkdir (extractDirOf E jobId)) s0 of
           (Some e, s1) \<Rightarrow> (Some e, s1)
         | (None, s1) \<Rightarrow>
      (case fsCall E (Mkdir (outputDirOf E jobId)) s1 of
           (Some e, s2) \<Rightarrow> (Some e, s2)
         | (None, s2) \<Rightarrow>
      (case extractAllTo E fileBuffer of
           Inl m \<Rightarrow> (Some (ArchiveError m), s2)
         | Inr items \<Rightarrow>
      (let s3 = setJob (convertingJob E jobId)
                  (s2\<lparr>fsops := fsops s2 @ [ExtractAllTo (extractDirOf E jobId)]\<rparr>);
           totalPngs = countPngs items 0
       in case processDirectory E jobId totalPngs
                 (extractDirOf E jobId) (outputDirOf E jobId) items s3 of
            (Some e, s4) \<Rightarrow> (Some e, s4)
          | (None, s4) \<Rightarrow>
      (let s5 = setJob (zippingJob E jobId) s4
       in case fsFault E (WriteZip (outputZipPathOf E jobId)) of
            Some m \<Rightarrow> (Some (ArchiveError m), s5)
          | None \<Rightarrow>
              (None, setJob (completedJob E jobId (processedPngs s5) totalPngs)
                       (s5\<lparr>fsops := fsops s5 @ [WriteZip (outputZipPathOf E jobId)]\<rparr>)))))))"

text \<open>
  The \<^verbatim>\<open>catch\<close> block: the failed record, then the clean-up in its own \<^verbatim>\<open>try\<close>.
  \<^verbatim>\<open>if (fs.existsSync(tempDir)) fs.rmSync(tempDir, ...)\<close>, where an exception of
  \<^verbatim>\<open>fs.rmSync\<close> is caught and logged.
\<close>

definition cleanupOnError :: "env \<Rightarrow> string \<Rightarrow> wstate \<Rightarrow> wstate" where
  "cleanupOnError E jobId s =
     (if existsSync E s (tempDirOf E jobId)
      then (case fsFault E (Rm (tempDirOf E jobId)) of
              Some m \<Rightarrow> s
            | None \<Rightarrow> s\<lparr>fsops := fsops s @ [Rm (tempDirOf E jobId)]\<rparr>)
      else s)"

definition processFilesAsync :: "env \<Rightarrow> string \<Rightarrow> bytes \<Rightarrow> wstate" where
  "processFilesAsync E jobId fileBuffer =
     (case tryBlock E jobId fileBuffer of
        (None, s) \<Rightarrow> s
      | (Some e, s) \<Rightarrow> cleanupOnError E jobId (setJob (failedJob E jobId (message e)) s))"

section \<open>The registry and the request handlers\<close>

text \<open>
  \<^verbatim>\<open>processingJobs\<close> is a \<^verbatim>\<open>Map\<close> from job id to record. \<open>immediates\<close> is the queue of
  callbacks scheduled with \<^verbatim>\<open>setImmediate\<close> that have not started yet.
\<close>

record server =
  processingJobs :: "string \<rightharpoonup> job"
  immediates :: "(string \<times> bytes) list"

datatype response =
    BadRequest string
  | JobAccepted string
  | NotFound string
  | JobJson job
  | ZipBody string
  | ServerError string

text \<open>
  \<^verbatim>\<open>POST /convert-folder-structure\<close>. \<open>now\<close> is the value of \<^verbatim>\<open>Date.now()\<close>; the upload
  is absent or a buffer. The handler answers with the job id and schedules
  \<^verbatim>\<open>processFilesAsync\<close>; it does not touch \<^verbatim>\<open>processingJobs\<close>.
\<close>

definition submitJob :: "nat \<Rightarrow> bytes option \<Rightarrow> server \<Rightarrow> response \<times> server" where
  "submitJob now upload S =
     (case upload of
        None \<Rightarrow> (BadRequest ''No zip file uploaded'', S)
      | Some fileBuffer \<Rightarrow>
          (let jobId = toString now
           in (JobAccepted jobId, S\<lparr>immediates := immediates S @ [(jobId, fileBuffer)]\<rparr>)))"

text \<open>\<^verbatim>\<open>GET /status/:jobId\<close>\<close>

definition getStatus :: "string \<Rightarrow> server \<Rightarrow> response" where
  "getStatus jobId S =
     (case processingJobs S jobId of
        None \<Rightarrow> NotFound ''Job not found''
      | Some j \<Rightarrow> JobJson j)"


text \<open>The callback of \<^verbatim>\<open>setTimeout(..., 5000)\<close> after a download.\<close>

definition cleanupAfterDownload :: "string \<Rightarrow> server \<Rightarrow> server" where
  "cleanupAfterDownload jobId S = S\<lparr>processingJobs := (processingJobs S)(jobId := None)\<rparr>"

text \<open>
  The registry after the records \<open>rs\<close> have been stored under \<open>jobId\<close>, one after the
  other. While the scheduled task of a job runs, the registry seen by a status request is
  \<open>storeAll jobId (take k rs)\<close> of the registry before, for the records \<open>rs\<close> the task
  publishes and the number \<open>k\<close> published so far; \<open>k = 0\<close> before the task starts.
\<close>

definition storeAll :: "string \<Rightarrow> job list \<Rightarrow> server \<Rightarrow> server" where
  "storeAll jobId rs S =
     S\<lparr>processingJobs := foldl (\<lambda>m r. m(jobId \<mapsto> r)) (processingJobs S) rs\<rparr>"

text \<open>
  A scheduled callback runs: the first queued task leaves the queue and its records are
  stored (here all of them: the state after the task has finished).
\<close>

definition runImmediate :: "env \<Rightarrow> server \<Rightarrow> server" where
  "runImmediate E S =
     (case immediates S of
        [] \<Rightarrow> S
      | (jobId, fileBuffer) # rest \<Rightarrow>
          storeAll jobId (published (processFilesAsync E jobId fileBuffer))
            (S\<lparr>immediates := rest\<rparr>))"

definition emptyServer :: server where
  "emptyServer = \<lparr>processingJobs = Map.empty, immediates = []\<rparr>"

section \<open>Counting the outcomes of a walk\<close>

text \<open>
  The quantities the claims speak of, as functions of the extracted tree. A convertible
  file is a regular file with the PNG extension: those are the files \<^verbatim>\<open>processDirectory\<close>
  attempts. An attempt succeeds when \<open>convert\<close> returns and the write does not throw.
\<close>

fun convertibleFiles :: "entry list \<Rightarrow> nat" where
  "convertibleFiles [] = 0"
| "convertibleFiles (Dir item children # rest) =
     convertibleFiles children + convertibleFiles rest"
| "convertibleFiles (File item fileBuffer # rest) =
     (if isPng item then 1 else 0) + convertibleFiles rest"
| "convertibleFiles (Special item # rest) = convertibleFiles rest"

definition attemptOk :: "env \<Rightarrow> string \<Rightarrow> string \<Rightarrow> bytes \<Rightarrow> bool" where
  "attemptOk E outputDir item fileBuffer =
     (case convert (sharp E) fileBuffer of
        Inl e \<Rightarrow> False
      | Inr webpBuffer \<Rightarrow>
          fsFault E (WriteFile (join outputDir (parseName item @ ''.webp'')) webpBuffer) = None)"

fun succeededFiles :: "env \<Rightarrow> string \<Rightarrow> entry list \<Rightarrow> nat" where
  "succeededFiles E outputDir [] = 0"
| "succeededFiles E outputDir (Dir item children # rest) =
     succeededFiles E (join outputDir item) children + succeededFiles E outputDir rest"
| "succeededFiles E outputDir (File item fileBuffer # rest) =
     (if isPng item \<and> attemptOk E outputDir item fileBuffer then 1 else 0)
       + succeededFiles E outputDir rest"
| "succeededFiles E outputDir (Special item # rest) = succeededFiles E outputDir rest"

fun failedFiles :: "env \<Rightarrow> string \<Rightarrow> entry list \<Rightarrow> nat" where
  "failedFiles E outputDir [] = 0"
| "failedFiles E outputDir (Dir item children # rest) =
     failedFiles E (join outputDir item) children + failedFiles E outputDir rest"
| "failedFiles E outputDir (File item fileBuffer # rest) =
     (if isPng item \<and> \<not> attemptOk E outputDir item fileBuffer then 1 else 0)
       + failedFiles E outputDir rest"
| "failedFiles E outputDir (Special item # rest) = failedFiles E outputDir rest"

text \<open>
  \<open>walked E jobId totalPngs s s'\<close>: from \<open>s\<close> to \<open>s'\<close> the counter went up and exactly the
  records of the counts in between were published, in order.
\<close>

definition walked :: "env \<Rightarrow> string \<Rightarrow> nat \<Rightarrow> wstate \<Rightarrow> wstate \<Rightarrow> bool" where
  "walked E jobId totalPngs s s' =
     (processedPngs s \<le> processedPngs s' \<and>
      published s' = published s @
        map (\<lambda>n. convertedJob E jobId n totalPngs)
          [Suc (processedPngs s)..<Suc (processedPngs s')])"

text \<open>The progress values of the records whose status is not terminal, in order.\<close>

definition nonTerminal :: "job \<Rightarrow> bool" where
  "nonTerminal r = (status r = Extracting \<or> status r = Converting \<or> status r = Zipping)"

definition progressValues :: "job list \<Rightarrow> nat list" where
  "progressValues rs = List.map_filter progress (filter nonTerminal rs)"

text \<open>Environments and trees used as concrete inputs.\<close>

definition noFault :: "fsop \<Rightarrow> string option" where
  "noFault op = None"

definition nowhere :: "string \<Rightarrow> bool" where
  "nowhere p = False"



definition onePngTree :: "entry list" where
  "onePngTree = [File ''a.png'' [137, 80, 78, 71]]"

definition onePngArchive :: "bytes \<Rightarrow> string + entry list" where
  "onePngArchive fileBuffer = Inr onePngTree"

definition mixedTree :: "entry list" where
  "mixedTree =
     [File ''bad.png'' [0], File ''n.txt'' [110, 111], File ''ok.png'' [137, 80, 78, 71]]"

definition mixedArchive :: "bytes \<Rightarrow> string + entry list" where
  "mixedArchive fileBuffer = Inr mixedTree"


definition corruptArchive :: "bytes \<Rightarrow> string + entry list" where
  "corruptArchive fileBuffer = Inl ''Invalid or unsupported zip format. No END header found''"

definition rejectingEnv :: env where
  "rejectingEnv =
     \<lparr>dirname = ''/srv/app'', sharp = rejectingCodec, extractAllTo = onePngArchive,
      fsFault = noFault, existsOtherwise = nowhere\<rparr>"

definition workingEnv :: env where
  "workingEnv =
     \<lparr>dirname = ''/srv/app'', sharp = steppedCodec, extractAllTo = onePngArchive,
      fsFault = noFault, existsOtherwise = nowhere\<rparr>"

definition mixedEnv :: env where
  "mixedEnv =
     \<lparr>dirname = ''/srv/app'', sharp = pickyCodec, extractAllTo = mixedArchive,
      fsFault = noFault, existsOtherwise = nowhere\<rparr>"



definition corruptEnv :: env where
  "corruptEnv =
     \<lparr>dirname = ''/srv/app'', sharp = steppedCodec, extractAllTo = corruptArchive,
      fsFault = noFault, existsOtherwise = nowhere\<rparr>"

text \<open>
  The states of \<^verbatim>\<open>processFilesAsync\<close> at the start of its \<^verbatim>\<open>try\<close> block and when the
  walk begins, and the records the walk has published when the counter is \<open>n\<close>.
\<close>

definition startState :: "env \<Rightarrow> string \<Rightarrow> wstate" where
  "startState E jobId = \<lparr>processedPngs = 0, published = [extractingJob E jobId], fsops = []\<rparr>"

definition extractedState :: "env \<Rightarrow> string \<Rightarrow> wstate" where
  "extractedState E jobId =
     \<lparr>processedPngs = 0,
      published = [extractingJob E jobId, convertingJob E jobId],
      fsops = [Mkdir (extractDirOf E jobId), Mkdir (outputDirOf E jobId),
               ExtractAllTo (extractDirOf E jobId)]\<rparr>"

definition walkRecords :: "env \<Rightarrow> string \<Rightarrow> nat \<Rightarrow> nat \<Rightarrow> job list" where
  "walkRecords E jobId totalPngs n =
     map (\<lambda>k. convertedJob E jobId k totalPngs) [Suc 0..<Suc n]"

section \<open>Properties of the quality search\<close>

lemma convert_low: "quality < 10 \<Longrightarrow> convertToWebP enc buffer quality = Inl CompressionFailed"
  by (subst convertToWebP.simps) simp

lemma convert_throw:
  "\<not> quality < 10 \<Longrightarrow> enc buffer quality = Inl m \<Longrightarrow>
   convertToWebP enc buffer quality = Inl (CodecError m)"
  by (subst convertToWebP.simps) simp

lemma convert_retry:
  "\<not> quality < 10 \<Longrightarrow> enc buffer quality = Inr w \<Longrightarrow> length w > maxSize \<Longrightarrow>
   convertToWebP enc buffer quality = convertToWebP enc buffer (quality - 10)"
  by (subst convertToWebP.simps) simp

lemma convert_done:
  "\<not> quality < 10 \<Longrightarrow> enc buffer quality = Inr w \<Longrightarrow> \<not> length w > maxSize \<Longrightarrow>
   convertToWebP enc buffer quality = Inr w"
  by (subst convertToWebP.simps) simp

lemma levels_low: "quality < 10 \<Longrightarrow> levelsTried enc buffer quality = []"
  by (subst levelsTried.simps) simp

lemma levels_throw:
  "\<not> quality < 10 \<Longrightarrow> enc buffer quality = Inl m \<Longrightarrow>
   levelsTried enc buffer quality = [quality]"
  by (subst levelsTried.simps) simp

lemma levels_retry:
  "\<not> quality < 10 \<Longrightarrow> enc buffer quality = Inr w \<Longrightarrow> length w > maxSize \<Longrightarrow>
   levelsTried enc buffer quality = quality # levelsTried enc buffer (quality - 10)"
  by (subst levelsTried.simps) simp

lemma levels_done:
  "\<not> quality < 10 \<Longrightarrow> enc buffer quality = Inr w \<Longrightarrow> \<not> length w > maxSize \<Longrightarrow>
   levelsTried enc buffer quality = [quality]"
  by (subst levelsTried.simps) simp


lemma ladder_induct [case_names low throw retry stop]:
  assumes low: "\<And>q. q < 10 \<Longrightarrow> P q"
    and throw: "\<And>q m. \<not> q < 10 \<Longrightarrow> (enc :: codec) (buffer :: bytes) q = Inl m \<Longrightarrow> P q"
    and retry: "\<And>q w. \<not> q < 10 \<Longrightarrow> enc buffer q = Inr w \<Longrightarrow> length w > maxSize
                  \<Longrightarrow> P (q - 10) \<Longrightarrow> P q"
    and finish: "\<And>q w. \<not> q < 10 \<Longrightarrow> enc buffer q = Inr w \<Longrightarrow> \<not> length w > maxSize \<Longrightarrow> P q"
  shows "P (quality :: int)"
  using assms
proof (induction enc buffer quality rule: convertToWebP.induct)
  case (1 enc buffer quality)
  show ?case
  proof (cases "quality < 10")
    case True
    then show ?thesis by (rule "1.prems"(1))
  next
    case False
    show ?thesis
    proof (cases "enc buffer quality")
      case (Inl m)
      with False show ?thesis by (rule "1.prems"(2))
    next
      case (Inr w)
      show ?thesis
      proof (cases "length w > maxSize")
        case True
        have "P (quality - 10)"
          by (rule "1.IH"[OF False Inr True "1.prems"])
        with False Inr True show ?thesis by (rule "1.prems"(3))
      next
        case F2: False
        with False Inr show ?thesis by (rule "1.prems"(4))
      qed
    qed
  qed
qed

lemma convertToWebP_Inr_size:
  "convertToWebP enc buffer quality = Inr w \<Longrightarrow> length w \<le> maxSize"
  by (induction quality rule: ladder_induct [where enc = enc and buffer = buffer])
     (simp_all add: convert_low convert_throw convert_retry convert_done)

lemma convert_CodecError_last:
  "convertToWebP enc buffer quality = Inl (CodecError m) \<Longrightarrow>
   levelsTried enc buffer quality \<noteq> [] \<and>
   enc buffer (last (levelsTried enc buffer quality)) = Inl m"
proof (induction quality rule: ladder_induct [where enc = enc and buffer = buffer])
  case (low q)
  then show ?case by (simp add: convert_low)
next
  case (throw q m')
  then show ?case by (simp add: convert_throw levels_throw)
next
  case (retry q w')
  then show ?case by (simp add: levels_retry convert_retry)
next
  case (stop q w')
  then show ?case by (simp add: levels_done convert_done)
qed

lemma convert_throw_at:
  "q \<in> set (levelsTried enc buffer quality) \<Longrightarrow> enc buffer q = Inl m \<Longrightarrow>
   convertToWebP enc buffer quality = Inl (CodecError m)"
proof (induction quality rule: ladder_induct [where enc = enc and buffer = buffer])
  case (low q')
  then show ?case by (simp add: levels_low)
next
  case (throw q' m')
  then show ?case by (auto simp add: levels_throw convert_throw)
next
  case (retry q' w')
  then show ?case by (auto simp add: levels_retry convert_retry)
next
  case (stop q' w')
  then show ?case by (auto simp add: levels_done convert_done)
qed

lemma convertToWebP_other_errors:
  "convertToWebP enc buffer quality \<noteq> Inl (ArchiveError m) \<and>
   convertToWebP enc buffer quality \<noteq> Inl (FilesystemError m)"
  by (induction quality rule: ladder_induct [where enc = enc and buffer = buffer])
     (simp_all add: convert_low convert_throw convert_retry convert_done)

lemma levels_step:
  "levelsTried enc buffer quality =
     map (\<lambda>i. quality - 10 * int i) [0..<length (levelsTried enc buffer quality)]"
proof (induction quality rule: ladder_induct [where enc = enc and buffer = buffer])
  case (low q)
  then show ?case by (simp add: levels_low)
next
  case (throw q m)
  then show ?case by (simp add: levels_throw)
next
  case (retry q w)
  let ?r = "levelsTried enc buffer (q - 10)"
  have e: "levelsTried enc buffer q = q # ?r"
    using retry by (simp add: levels_retry)
  have "map (\<lambda>i. q - 10 * int i) [0..<Suc (length ?r)]
        = q # map (\<lambda>i. q - 10 * int (Suc i)) [0..<length ?r]"
    by (simp only: upt_conv_Cons[of 0 "Suc (length ?r)"] map_Suc_upt[symmetric]) simp
  also have "map (\<lambda>i. q - 10 * int (Suc i)) [0..<length ?r]
        = map (\<lambda>i. q - 10 - 10 * int i) [0..<length ?r]"
    by (simp add: algebra_simps)
  also have "\<dots> = ?r" using retry.IH by simp
  finally show ?case using e by simp
next
  case (stop q w)
  then show ?case by (simp add: levels_done)
qed

lemma levels_ge10: "\<forall>q \<in> set (levelsTried enc buffer quality). 10 \<le> q"
  by (induction quality rule: ladder_induct [where enc = enc and buffer = buffer])
     (simp_all add: levels_low levels_throw levels_retry levels_done)

lemma levels_nonempty: "10 \<le> quality \<Longrightarrow> levelsTried enc buffer quality \<noteq> []"
  by (induction quality rule: ladder_induct [where enc = enc and buffer = buffer])
     (simp_all add: levels_low levels_throw levels_retry levels_done)

lemma levels_butlast_oversize:
  "\<forall>q \<in> set (butlast (levelsTried enc buffer quality)). oversize enc buffer q"
proof (induction quality rule: ladder_induct [where enc = enc and buffer = buffer])
  case (low q)
  then show ?case by (simp add: levels_low)
next
  case (throw q m)
  then show ?case by (simp add: levels_throw)
next
  case (retry q w)
  then show ?case by (auto simp add: levels_retry oversize_def)
next
  case (stop q w)
  then show ?case by (simp add: levels_done)
qed

lemma convert_Inr_last:
  "convertToWebP enc buffer quality = Inr w \<Longrightarrow>
   levelsTried enc buffer quality \<noteq> [] \<and>
   enc buffer (last (levelsTried enc buffer quality)) = Inr w"
proof (induction quality rule: ladder_induct [where enc = enc and buffer = buffer])
  case (low q)
  then show ?case by (simp add: convert_low)
next
  case (throw q m)
  then show ?case by (simp add: convert_throw)
next
  case (retry q w')
  then show ?case by (simp add: levels_retry convert_retry)
next
  case (stop q w')
  then show ?case by (simp add: levels_done convert_done)
qed

lemma convert_failed_all_oversize:
  "convertToWebP enc buffer quality = Inl CompressionFailed \<Longrightarrow>
   (\<forall>q \<in> set (levelsTried enc buffer quality). oversize enc buffer q) \<and>
   (10 \<le> quality \<longrightarrow> last (levelsTried enc buffer quality) < 20)"
proof (induction quality rule: ladder_induct [where enc = enc and buffer = buffer])
  case (low q)
  then show ?case by (simp add: levels_low)
next
  case (throw q m)
  then show ?case by (simp add: convert_throw)
next
  case (retry q w')
  then show ?case
    by (cases "10 \<le> q - 10") (auto simp add: levels_retry convert_retry oversize_def levels_nonempty levels_low)
next
  case (stop q w')
  then show ?case by (simp add: convert_done)
qed

lemma convert_success_at:
  "q \<in> set (levelsTried enc buffer quality) \<Longrightarrow> enc buffer q = Inr w \<Longrightarrow>
   length w \<le> maxSize \<Longrightarrow> convertToWebP enc buffer quality = Inr w"
proof (induction quality rule: ladder_induct [where enc = enc and buffer = buffer])
  case (low q')
  then show ?case by (simp add: levels_low)
next
  case (throw q' m)
  then show ?case by (auto simp add: levels_throw)
next
  case (retry q' w')
  then show ?case by (auto simp add: levels_retry convert_retry)
next
  case (stop q' w')
  then show ?case by (auto simp add: levels_done convert_done)
qed


lemma riff_fits: "\<not> maxSize < length [82, 73, 70, 70 :: nat]"
  by (simp add: maxSize_def)

lemma levels_length_le:
  assumes "quality \<le> 90"
  shows "length (levelsTried enc buffer quality) \<le> 9"
proof (cases "levelsTried enc buffer quality = []")
  case True
  then show ?thesis by simp
next
  case False
  let ?L = "levelsTried enc buffer quality"
  let ?n = "length ?L"
  from False have pos: "0 < ?n" by simp
  have "?L ! (?n - 1) = map (\<lambda>i. quality - 10 * int i) [0..<?n] ! (?n - 1)"
    using levels_step[of enc buffer quality] by simp
  also have "\<dots> = quality - 10 * int (?n - 1)"
    using pos by simp
  finally have l: "?L ! (?n - 1) = quality - 10 * int (?n - 1)" .
  have "?L ! (?n - 1) \<in> set ?L" using pos by simp
  then have "10 \<le> ?L ! (?n - 1)" using levels_ge10 by blast
  with l assms show ?thesis by simp
qed

text \<open>
  C2. The claim is that \<open>convert\<close> either returns at most \<open>maxSize\<close> bytes or fails with
  \<open>CompressionFailed\<close>. On an input the codec rejects, \<^verbatim>\<open>convertToWebP\<close> lets the
  codec's own exception through: the outcome is neither of the two.
\<close>

theorem C2_codec_error_counterexample:
  "convert rejectingCodec [1, 2, 3] =
     Inl (CodecError ''Input buffer contains unsupported image format'')
   \<and> convert rejectingCodec [1, 2, 3] \<noteq> Inl CompressionFailed"
  by (simp add: convert_def convertToWebP.simps rejectingCodec_def)

text \<open>
  C2 (amended). \<open>convert\<close> returns bytes of length at most \<open>maxSize\<close> (2 MiB), or fails with
  \<open>CompressionFailed\<close>, or fails with the exception the codec threw at the last level it
  was called with, passed on unchanged. It never returns more than \<open>maxSize\<close> bytes. The
  codec throws at a level that is tried exactly in the third case: then that level is the
  last one tried and the outcome is that exception; and when the codec throws at none of
  the levels tried, the outcome is one of the first two.
\<close>

theorem C2_convert_size_ceiling:
  "((\<exists>w. convert enc buffer = Inr w \<and> length w \<le> maxSize)
     \<or> convert enc buffer = Inl CompressionFailed
     \<or> (\<exists>m. convert enc buffer = Inl (CodecError m)
            \<and> convertLevels enc buffer \<noteq> []
            \<and> enc buffer (last (convertLevels enc buffer)) = Inl m))
   \<and> (\<forall>w. convert enc buffer = Inr w \<longrightarrow> length w \<le> maxSize)
   \<and> (\<forall>q \<in> set (convertLevels enc buffer). \<forall>m. enc buffer q = Inl m \<longrightarrow>
         convert enc buffer = Inl (CodecError m) \<and> q = last (convertLevels enc buffer))
   \<and> ((\<forall>q \<in> set (convertLevels enc buffer). \<forall>m. enc buffer q \<noteq> Inl m) \<longrightarrow>
        (\<exists>w. convert enc buffer = Inr w \<and> length w \<le> maxSize)
        \<or> convert enc buffer = Inl CompressionFailed)"
proof -
  let ?L = "convertLevels enc buffer"
  have ne: "?L \<noteq> []"
    by (simp add: convertLevels_def levels_nonempty)
  have size: "\<forall>w. convert enc buffer = Inr w \<longrightarrow> length w \<le> maxSize"
    by (simp add: convert_def convertToWebP_Inr_size)
  have tri: "(\<exists>w. convert enc buffer = Inr w \<and> length w \<le> maxSize)
     \<or> convert enc buffer = Inl CompressionFailed
     \<or> (\<exists>m. convert enc buffer = Inl (CodecError m) \<and> ?L \<noteq> []
            \<and> enc buffer (last ?L) = Inl m)"
  proof (cases "convert enc buffer")
    case (Inr w)
    with size show ?thesis by simp
  next
    case (Inl e)
    show ?thesis
    proof (cases e)
      case CompressionFailed
      with Inl show ?thesis by simp
    next
      case (CodecError m)
      with Inl have "convertToWebP enc buffer 90 = Inl (CodecError m)"
        by (simp add: convert_def)
      from convert_CodecError_last[OF this] Inl CodecError show ?thesis
        by (simp add: convertLevels_def)
    next
      case (ArchiveError m)
      with Inl convertToWebP_other_errors[of enc buffer 90 m] show ?thesis
        by (simp add: convert_def)
    next
      case (FilesystemError m)
      with Inl convertToWebP_other_errors[of enc buffer 90 m] show ?thesis
        by (simp add: convert_def)
    qed
  qed
  have thrown: "\<forall>q \<in> set ?L. \<forall>m. enc buffer q = Inl m \<longrightarrow>
         convert enc buffer = Inl (CodecError m) \<and> q = last ?L"
  proof (intro ballI allI impI)
    fix q m
    assume q: "q \<in> set ?L" and t: "enc buffer q = Inl m"
    then have r: "convert enc buffer = Inl (CodecError m)"
      by (simp add: convert_def convertLevels_def convert_throw_at)
    from t have "\<not> oversize enc buffer q" by (simp add: oversize_def)
    moreover have "\<forall>q \<in> set (butlast ?L). oversize enc buffer q"
      unfolding convertLevels_def by (rule levels_butlast_oversize)
    ultimately have "q \<notin> set (butlast ?L)" by blast
    moreover from ne have "?L = butlast ?L @ [last ?L]" by simp
    ultimately have "q = last ?L" using q
      by (metis Un_iff empty_iff empty_set set_ConsD set_append)
    with r show "convert enc buffer = Inl (CodecError m) \<and> q = last ?L" by simp
  qed
  have dich: "(\<forall>q \<in> set ?L. \<forall>m. enc buffer q \<noteq> Inl m) \<longrightarrow>
        (\<exists>w. convert enc buffer = Inr w \<and> length w \<le> maxSize)
        \<or> convert enc buffer = Inl CompressionFailed"
  proof
    assume no: "\<forall>q \<in> set ?L. \<forall>m. enc buffer q \<noteq> Inl m"
    from ne have "last ?L \<in> set ?L" by simp
    with no have "\<forall>m. enc buffer (last ?L) \<noteq> Inl m" by blast
    with tri show "(\<exists>w. convert enc buffer = Inr w \<and> length w \<le> maxSize)
        \<or> convert enc buffer = Inl CompressionFailed" by blast
  qed
  from tri size thrown dich show ?thesis by (intro conjI)
qed

theorem C2_convert_size_ceiling_witness:
  "convertLevels rejectingCodec [7] = [90]
   \<and> (90 :: int) \<in> set (convertLevels rejectingCodec [7])
   \<and> rejectingCodec [7] 90 = Inl ''Input buffer contains unsupported image format''
   \<and> convert rejectingCodec [7]
       = Inl (CodecError ''Input buffer contains unsupported image format'')
   \<and> convert steppedCodec [7] = Inr [82, 73, 70, 70]
   \<and> length [82, 73, 70, 70 :: nat] \<le> maxSize
   \<and> convert bloatingCodec [7] = Inl CompressionFailed"
proof -
  have l: "convertLevels rejectingCodec [7] = [90]"
    by (simp add: convertLevels_def levelsTried.simps rejectingCodec_def)
  then have mem: "(90 :: int) \<in> set (convertLevels rejectingCodec [7])" by simp
  have thr: "rejectingCodec [7] 90 = Inl ''Input buffer contains unsupported image format''"
    by (simp add: rejectingCodec_def)
  from C2_convert_size_ceiling[of rejectingCodec "[7]"]
  have "\<forall>q \<in> set (convertLevels rejectingCodec [7]). \<forall>m. rejectingCodec [7] q = Inl m \<longrightarrow>
         convert rejectingCodec [7] = Inl (CodecError m)
         \<and> q = last (convertLevels rejectingCodec [7])"
    by (elim conjE)
  with mem thr have r: "convert rejectingCodec [7]
       = Inl (CodecError ''Input buffer contains unsupported image format'')" by blast
  have b: "convert steppedCodec [7] = Inr [82, 73, 70, 70]"
    using riff_fits by (simp add: convert_def convertToWebP.simps steppedCodec_def)
  have c: "convert bloatingCodec [7] = Inl CompressionFailed"
    by (simp add: convert_def convertToWebP.simps bloatingCodec_def)
  from C2_convert_size_ceiling[of steppedCodec "[7]"]
  have "\<forall>w. convert steppedCodec [7] = Inr w \<longrightarrow> length w \<le> maxSize"
    by (elim conjE)
  with b have d: "length [82, 73, 70, 70 :: nat] \<le> maxSize" by blast
  from l mem thr r b d c show ?thesis by (intro conjI)
qed

text \<open>
  C3. The qualities passed to the codec by \<open>convert\<close> are 90, 80, 70, ... in steps of 10:
  a non-empty initial segment of 90, 80, ..., 10. No level below 10 is tried. Every level
  but the last one tried gave an output above the ceiling, so the search stops at the first
  level whose output meets it, and that output is the result. \<open>CompressionFailed\<close> is the
  outcome only when all nine levels down to 10 were tried and each gave an output above
  the ceiling.
\<close>

theorem C3_quality_ladder:
  "(\<exists>n. 1 \<le> n \<and> n \<le> 9
        \<and> convertLevels enc buffer = map (\<lambda>i. 90 - 10 * int i) [0..<n])
   \<and> (\<forall>q \<in> set (convertLevels enc buffer). 10 \<le> q)
   \<and> (\<forall>q \<in> set (butlast (convertLevels enc buffer)). oversize enc buffer q)
   \<and> (\<forall>q \<in> set (convertLevels enc buffer). \<forall>w.
         enc buffer q = Inr w \<and> length w \<le> maxSize \<longrightarrow>
         q = last (convertLevels enc buffer) \<and> convert enc buffer = Inr w)
   \<and> (\<forall>w. convert enc buffer = Inr w \<longrightarrow>
         enc buffer (last (convertLevels enc buffer)) = Inr w \<and> length w \<le> maxSize)
   \<and> (convert enc buffer = Inl CompressionFailed \<longrightarrow>
         convertLevels enc buffer = [90, 80, 70, 60, 50, 40, 30, 20, 10]
         \<and> (\<forall>q \<in> set (convertLevels enc buffer). oversize enc buffer q))"
proof -
  let ?L = "convertLevels enc buffer"
  have ne: "?L \<noteq> []"
    by (simp add: convertLevels_def levels_nonempty)
  have len: "length ?L \<le> 9"
    by (simp add: convertLevels_def levels_length_le)
  have step: "?L = map (\<lambda>i. 90 - 10 * int i) [0..<length ?L]"
    unfolding convertLevels_def by (rule levels_step)
  have p1: "\<exists>n. 1 \<le> n \<and> n \<le> 9 \<and> ?L = map (\<lambda>i. 90 - 10 * int i) [0..<n]"
  proof -
    from ne have "1 \<le> length ?L" by (cases ?L) simp_all
    with len step show ?thesis by blast
  qed
  have p2: "\<forall>q \<in> set ?L. 10 \<le> q"
    unfolding convertLevels_def by (rule levels_ge10)
  have p3: "\<forall>q \<in> set (butlast ?L). oversize enc buffer q"
    unfolding convertLevels_def by (rule levels_butlast_oversize)
  have p5: "\<forall>w. convert enc buffer = Inr w \<longrightarrow>
         enc buffer (last ?L) = Inr w \<and> length w \<le> maxSize"
    by (simp add: convert_def convertLevels_def convert_Inr_last convertToWebP_Inr_size)
  have p4: "\<forall>q \<in> set ?L. \<forall>w. enc buffer q = Inr w \<and> length w \<le> maxSize \<longrightarrow>
         q = last ?L \<and> convert enc buffer = Inr w"
  proof (intro ballI allI impI)
    fix q w
    assume q: "q \<in> set ?L" and w: "enc buffer q = Inr w \<and> length w \<le> maxSize"
    then have r: "convert enc buffer = Inr w"
      by (simp add: convert_def convertLevels_def convert_success_at)
    from w have "\<not> oversize enc buffer q" by (simp add: oversize_def)
    with p3 have "q \<notin> set (butlast ?L)" by blast
    moreover from ne have "?L = butlast ?L @ [last ?L]" by simp
    ultimately have "q = last ?L" using q
      by (metis Un_iff empty_iff empty_set set_ConsD set_append)
    with r show "q = last ?L \<and> convert enc buffer = Inr w" by simp
  qed
  have p6: "convert enc buffer = Inl CompressionFailed \<longrightarrow>
         ?L = [90, 80, 70, 60, 50, 40, 30, 20, 10]
         \<and> (\<forall>q \<in> set ?L. oversize enc buffer q)"
  proof
    assume f: "convert enc buffer = Inl CompressionFailed"
    then have cf: "convertToWebP enc buffer 90 = Inl CompressionFailed"
      by (simp add: convert_def)
    from convert_failed_all_oversize[OF cf]
    have all: "\<forall>q \<in> set ?L. oversize enc buffer q" and lst: "last ?L < 20"
      by (simp_all add: convertLevels_def)
    have "last ?L = ?L ! (length ?L - 1)"
      using ne by (simp add: last_conv_nth)
    also have "\<dots> = map (\<lambda>i. 90 - 10 * int i) [0..<length ?L] ! (length ?L - 1)"
      using step by simp
    also have "\<dots> = 90 - 10 * int (length ?L - 1)"
      using ne by simp
    finally have "90 - 10 * int (length ?L - 1) < 20" using lst by simp
    with len have "length ?L = 9" by simp
    with step have "?L = map (\<lambda>i. 90 - 10 * int i) [0..<9]" by simp
    also have "\<dots> = [90, 80, 70, 60, 50, 40, 30, 20, 10]"
      by (simp add: upt_rec)
    finally show "?L = [90, 80, 70, 60, 50, 40, 30, 20, 10]
         \<and> (\<forall>q \<in> set ?L. oversize enc buffer q)"
      using all by simp
  qed
  from p1 p2 p3 p4 p5 p6 show ?thesis by blast
qed

theorem C3_quality_ladder_witness:
  "convertLevels steppedCodec [7] = [90, 80, 70, 60, 50]
   \<and> convert steppedCodec [7] = Inr [82, 73, 70, 70]
   \<and> steppedCodec [7] (last (convertLevels steppedCodec [7])) = Inr [82, 73, 70, 70]
   \<and> oversize steppedCodec [7] 60
   \<and> convert bloatingCodec [7] = Inl CompressionFailed
   \<and> convertLevels bloatingCodec [7] = [90, 80, 70, 60, 50, 40, 30, 20, 10]"
proof -
  have a: "convertLevels steppedCodec [7] = [90, 80, 70, 60, 50]"
    using riff_fits by (simp add: convertLevels_def levelsTried.simps steppedCodec_def)
  have b: "convert steppedCodec [7] = Inr [82, 73, 70, 70]"
    using riff_fits by (simp add: convert_def convertToWebP.simps steppedCodec_def)
  have c: "convert bloatingCodec [7] = Inl CompressionFailed"
    by (simp add: convert_def convertToWebP.simps bloatingCodec_def)
  note s = C3_quality_ladder[of steppedCodec "[7]"]
  note f = C3_quality_ladder[of bloatingCodec "[7]"]
  from s have "\<forall>q \<in> set (butlast (convertLevels steppedCodec [7])). oversize steppedCodec [7] q"
    by (elim conjE)
  with a have s3: "oversize steppedCodec [7] 60"
    by simp
  from s have "\<forall>w. convert steppedCodec [7] = Inr w \<longrightarrow>
         steppedCodec [7] (last (convertLevels steppedCodec [7])) = Inr w \<and> length w \<le> maxSize"
    by (elim conjE)
  with b have s5: "steppedCodec [7] (last (convertLevels steppedCodec [7])) = Inr [82, 73, 70, 70]"
    by blast
  from f have "convert bloatingCodec [7] = Inl CompressionFailed \<longrightarrow>
         convertLevels bloatingCodec [7] = [90, 80, 70, 60, 50, 40, 30, 20, 10]
         \<and> (\<forall>q \<in> set (convertLevels bloatingCodec [7]). oversize bloatingCodec [7] q)"
    by (elim conjE)
  with c have f6: "convertLevels bloatingCodec [7] = [90, 80, 70, 60, 50, 40, 30, 20, 10]"
    by blast
  from a b c s3 s5 f6 show ?thesis by (intro conjI)
qed

section \<open>Properties of the double rounding and of the progress value\<close>

lemma rte_bounds: "\<lfloor>y\<rfloor> \<le> roundTiesToEven y \<and> roundTiesToEven y \<le> \<lfloor>y\<rfloor> + 1"
  by (simp add: roundTiesToEven_def Let_def)

lemma rte_of_int: "roundTiesToEven (of_int n) = n"
  by (simp add: roundTiesToEven_def Let_def)

lemma rte_err: "\<bar>of_int (roundTiesToEven y) - y\<bar> \<le> 1 / 2"
proof -
  define d where "d = y - of_int \<lfloor>y\<rfloor>"
  have d: "0 \<le> d" "d < 1" unfolding d_def by linarith+
  have r: "roundTiesToEven y =
      (if d < 1 / 2 then \<lfloor>y\<rfloor> else if 1 / 2 < d then \<lfloor>y\<rfloor> + 1
       else if even \<lfloor>y\<rfloor> then \<lfloor>y\<rfloor> else \<lfloor>y\<rfloor> + 1)"
    by (simp add: roundTiesToEven_def Let_def d_def)
  have y: "y = of_int \<lfloor>y\<rfloor> + d" by (simp add: d_def)
  have a: "of_int \<lfloor>y\<rfloor> - y = - d" and b: "of_int (\<lfloor>y\<rfloor> + 1) - y = 1 - d"
    by (simp_all add: d_def)
  consider "d < 1 / 2" | "1 / 2 < d" | "d = 1 / 2" by linarith
  then show ?thesis
  proof cases
    case 1
    with r have "roundTiesToEven y = \<lfloor>y\<rfloor>" by simp
    with a d 1 show ?thesis by simp
  next
    case 2
    with r have "roundTiesToEven y = \<lfloor>y\<rfloor> + 1" by simp
    with b d 2 show ?thesis by (simp only: abs_if) simp
  next
    case 3
    with r have "roundTiesToEven y = \<lfloor>y\<rfloor> \<or> roundTiesToEven y = \<lfloor>y\<rfloor> + 1" by simp
    then show ?thesis
    proof
      assume "roundTiesToEven y = \<lfloor>y\<rfloor>"
      with a 3 show ?thesis by simp
    next
      assume "roundTiesToEven y = \<lfloor>y\<rfloor> + 1"
      with b 3 show ?thesis by (simp only: abs_if) simp
    qed
  qed
qed

lemma rte_mono:
  assumes "y \<le> z"
  shows "roundTiesToEven y \<le> roundTiesToEven z"
proof (cases "\<lfloor>y\<rfloor> = \<lfloor>z\<rfloor>")
  case True
  with assms have "y - of_int \<lfloor>z\<rfloor> \<le> z - of_int \<lfloor>z\<rfloor>" by simp
  with True show ?thesis
    by (auto simp add: roundTiesToEven_def Let_def)
next
  case False
  with assms have "\<lfloor>y\<rfloor> < \<lfloor>z\<rfloor>"
    by (simp add: floor_mono order.strict_iff_order)
  then have "\<lfloor>y\<rfloor> + 1 \<le> \<lfloor>z\<rfloor>" by simp
  with rte_bounds[of y] rte_bounds[of z] show ?thesis by linarith
qed

lemma p2_Suc: "power_int (2 :: rat) (e + 1) = 2 * power_int 2 e"
  by (simp add: power_int_add)

lemma p2_mono: "e \<le> e' \<Longrightarrow> power_int (2 :: rat) e \<le> power_int 2 e'"
  by (rule power_int_increasing) simp_all

lemma bitlen_rat_bounds:
  assumes "0 < a"
  shows "power_int (2 :: rat) (bitlen a) \<le> 2 * of_int a"
    and "of_int a < power_int (2 :: rat) (bitlen a)"
proof -
  from assms have ge1: "1 \<le> bitlen a" by (auto simp: bitlen_alt_def)
  from bitlen_bounds[OF assms]
  have lo: "2 ^ nat (bitlen a - 1) \<le> a" and hi: "a < 2 ^ nat (bitlen a)" by simp_all
  from hi have "(of_int a :: rat) < of_int (2 ^ nat (bitlen a))"
    by (simp only: of_int_less_iff)
  also have "\<dots> = power_int 2 (bitlen a)"
    using ge1 by (simp add: power_int_def)
  finally show "of_int a < power_int (2 :: rat) (bitlen a)" .
  have "power_int (2 :: rat) (bitlen a - 1) = of_int (2 ^ nat (bitlen a - 1))"
    using ge1 by (simp add: power_int_def)
  also from lo have "\<dots> \<le> of_int a"
    by (simp only: of_int_le_iff)
  finally have "power_int (2 :: rat) (bitlen a - 1) \<le> of_int a" .
  moreover have "power_int (2 :: rat) (bitlen a) = 2 * power_int 2 (bitlen a - 1)"
    using p2_Suc[of "bitlen a - 1"] by simp
  ultimately show "power_int (2 :: rat) (bitlen a) \<le> 2 * of_int a" by simp
qed

lemma binade_bounds:
  assumes "0 < x"
  shows "2 ^ 52 * power_int 2 (binade x) \<le> x" and "x < 2 ^ 53 * power_int 2 (binade x)"
proof -
  obtain a b where q: "quotient_of x = (a, b)" by (cases "quotient_of x")
  then have b: "0 < b" by (rule quotient_of_denom_pos)
  from q have x: "x = of_int a / of_int b" by (rule quotient_of_div)
  with assms b have a: "0 < a" by (simp add: zero_less_divide_iff)
  define e0 where "e0 = bitlen a - bitlen b - 53"
  let ?pa = "power_int (2 :: rat) (bitlen a)"
  let ?pb = "power_int (2 :: rat) (bitlen b)"
  have pe0: "power_int (2 :: rat) e0 = ?pa / ?pb / 2 ^ 53"
    by (simp add: e0_def power_int_diff)
  have pbpos: "0 < ?pb" and papos: "0 < ?pa" by simp_all
  have bpos: "(0 :: rat) < of_int b" using b by simp
  have apos: "(0 :: rat) < of_int a" using a by simp
  note A = bitlen_rat_bounds[OF a] and B = bitlen_rat_bounds[OF b]
  have lo: "2 ^ 52 * power_int 2 e0 \<le> x"
  proof -
    have "?pa * of_int b \<le> 2 * of_int a * ?pb"
      using A(1) B(2) apos bpos pbpos papos
      by (meson less_eq_rat_def mult_mono zero_le_mult_iff zero_le_numeral order_less_imp_le)
    then have "?pa / ?pb \<le> 2 * (of_int a / of_int b)"
      using bpos pbpos by (simp add: field_simps)
    then show ?thesis by (simp add: pe0 x)
  qed
  have hi: "x < 2 ^ 54 * power_int 2 e0"
  proof -
    have "of_int a * ?pb < ?pa * (2 * of_int b)"
      using A(2) B(1) apos pbpos
      by (intro mult_less_le_imp_less) simp_all
    then have "of_int a / of_int b < 2 * (?pa / ?pb)"
      using bpos pbpos by (simp add: field_simps)
    then show ?thesis by (simp add: pe0 x)
  qed
  have bin: "binade x = (if x < 2 ^ 53 * power_int 2 e0 then e0 else e0 + 1)"
    by (simp add: binade_def q e0_def Let_def)
  show "2 ^ 52 * power_int 2 (binade x) \<le> x"
    using lo by (auto simp add: bin p2_Suc)
  show "x < 2 ^ 53 * power_int 2 (binade x)"
    using hi by (auto simp add: bin p2_Suc)
qed

lemma binade_mono:
  assumes "0 < x" "x \<le> y"
  shows "binade x \<le> binade y"
proof (rule ccontr)
  assume "\<not> binade x \<le> binade y"
  then have "binade y + 1 \<le> binade x" by simp
  then have "power_int (2 :: rat) (binade y + 1) \<le> power_int 2 (binade x)" by (rule p2_mono)
  then have "2 ^ 53 * power_int (2 :: rat) (binade y) \<le> 2 ^ 52 * power_int 2 (binade x)"
    by (simp add: p2_Suc)
  also have "\<dots> \<le> x" using assms(1) by (rule binade_bounds)
  finally have "2 ^ 53 * power_int (2 :: rat) (binade y) \<le> y" using assms(2) by simp
  moreover from assms have "0 < y" by simp
  then have "y < 2 ^ 53 * power_int 2 (binade y)" by (rule binade_bounds)
  ultimately show False by simp
qed

lemma mantissa_bounds:
  assumes "0 < x"
  shows "2 ^ 52 \<le> roundTiesToEven (x / power_int 2 (binade x))"
    and "roundTiesToEven (x / power_int 2 (binade x)) \<le> 2 ^ 53"
proof -
  let ?m = "x / power_int 2 (binade x)"
  from binade_bounds[OF assms] have "2 ^ 52 \<le> ?m" and "?m \<le> 2 ^ 53"
    by (simp_all add: field_simps)
  then have "roundTiesToEven (of_int (2 ^ 52)) \<le> roundTiesToEven ?m"
    and "roundTiesToEven ?m \<le> roundTiesToEven (of_int (2 ^ 53))"
    by (simp_all add: rte_mono)
  then show "2 ^ 52 \<le> roundTiesToEven ?m" and "roundTiesToEven ?m \<le> 2 ^ 53"
    by (simp_all only: rte_of_int)
qed

lemma toDouble_nonneg: "0 \<le> toDouble x"
proof (cases "x \<le> 0")
  case True
  then show ?thesis by (simp add: toDouble_def)
next
  case False
  then have "0 < x" by simp
  from mantissa_bounds(1)[OF this] have "0 \<le> roundTiesToEven (x / power_int 2 (binade x))"
    by simp
  with False show ?thesis by (simp add: toDouble_def Let_def)
qed

lemma toDouble_mono:
  assumes "x \<le> y"
  shows "toDouble x \<le> toDouble y"
proof (cases "x \<le> 0")
  case True
  then show ?thesis using toDouble_nonneg[of y] by (simp add: toDouble_def)
next
  case False
  then have x: "0 < x" by simp
  with assms have y: "0 < y" by simp
  let ?ex = "binade x" and ?ey = "binade y"
  let ?mx = "roundTiesToEven (x / power_int 2 ?ex)"
  let ?my = "roundTiesToEven (y / power_int 2 ?ey)"
  have dx: "toDouble x = of_int ?mx * power_int 2 ?ex"
    using x by (simp add: toDouble_def Let_def)
  have dy: "toDouble y = of_int ?my * power_int 2 ?ey"
    using y by (simp add: toDouble_def Let_def)
  have le: "?ex \<le> ?ey" using x assms by (rule binade_mono)
  show ?thesis
  proof (cases "?ex = ?ey")
    case True
    from assms have "x / power_int 2 ?ey \<le> y / power_int 2 ?ey"
      by (simp add: divide_right_mono)
    then have "roundTiesToEven (x / power_int 2 ?ey) \<le> ?my" by (rule rte_mono)
    then have "(of_int (roundTiesToEven (x / power_int 2 ?ey)) :: rat) \<le> of_int ?my"
      by (simp only: of_int_le_iff)
    then show ?thesis by (simp add: dx dy True mult_right_mono)
  next
    case False
    with le have "?ex + 1 \<le> ?ey" by simp
    then have p: "2 * power_int (2 :: rat) ?ex \<le> power_int 2 ?ey"
      using p2_mono[of "?ex + 1" ?ey] by (simp add: p2_Suc)
    have "(of_int ?mx :: rat) \<le> of_int (2 ^ 53)"
      using mantissa_bounds(2)[OF x] by (simp only: of_int_le_iff)
    then have "toDouble x \<le> 2 ^ 53 * power_int 2 ?ex"
      by (simp add: dx mult_right_mono)
    also have "\<dots> = 2 ^ 52 * (2 * power_int 2 ?ex)" by simp
    also have "\<dots> \<le> 2 ^ 52 * power_int 2 ?ey"
      using p by (simp only: mult_left_mono zero_le_numeral zero_le_power)
    also have "\<dots> \<le> of_int ?my * power_int 2 ?ey"
    proof -
      have "(of_int (2 ^ 52) :: rat) \<le> of_int ?my"
        using mantissa_bounds(1)[OF y] by (simp only: of_int_le_iff)
      then show ?thesis by (simp add: mult_right_mono)
    qed
    finally show ?thesis by (simp add: dy)
  qed
qed

lemma toDouble_err:
  assumes "0 < x"
  shows "\<bar>toDouble x - x\<bar> \<le> x / 2 ^ 53"
proof -
  let ?p = "power_int (2 :: rat) (binade x)"
  let ?m = "x / ?p"
  have ppos: "0 < ?p" by simp
  have d: "toDouble x = of_int (roundTiesToEven ?m) * ?p"
    using assms by (simp add: toDouble_def Let_def)
  have "toDouble x - x = (of_int (roundTiesToEven ?m) - ?m) * ?p"
    using ppos by (simp add: d left_diff_distrib)
  then have "\<bar>toDouble x - x\<bar> = \<bar>of_int (roundTiesToEven ?m) - ?m\<bar> * ?p"
    using ppos by (simp add: abs_mult)
  also have "\<dots> \<le> 1 / 2 * ?p"
    using rte_err[of ?m] ppos by (intro mult_right_mono) simp_all
  also have "\<dots> \<le> x / 2 ^ 53"
    using binade_bounds(1)[OF assms] by simp
  finally show ?thesis .
qed

lemma toDouble_1: "toDouble 1 = 1"
  by code_simp

lemma toDouble_70: "toDouble 70 = 70"
  by code_simp

lemma progressOf_mono:
  assumes "p \<le> p'"
  shows "progressOf p t \<le> progressOf p' t"
proof (cases "t = 0")
  case True
  then show ?thesis by (simp add: progressOf_def)
next
  case False
  from assms have "(of_nat p :: rat) / of_nat t \<le> of_nat p' / of_nat t"
    by (simp add: divide_right_mono)
  then have "toDouble (of_nat p / of_nat t) * 70 \<le> toDouble (of_nat p' / of_nat t) * 70"
    by (simp add: toDouble_mono)
  then have "toDouble (toDouble (of_nat p / of_nat t) * 70)
             \<le> toDouble (toDouble (of_nat p' / of_nat t) * 70)"
    by (rule toDouble_mono)
  then have "nat \<lfloor>toDouble (toDouble (of_nat p / of_nat t) * 70)\<rfloor>
             \<le> nat \<lfloor>toDouble (toDouble (of_nat p' / of_nat t) * 70)\<rfloor>"
    by (intro nat_mono floor_mono)
  with False show ?thesis by (simp add: progressOf_def)
qed

lemma progressOf_range: "10 \<le> progressOf p t \<and> progressOf p t \<le> 90"
  by (simp add: progressOf_def)

lemma progressOf_all: "0 < t \<Longrightarrow> progressOf t t = 80"
  by (simp add: progressOf_def toDouble_1 toDouble_70)

lemma progressOf_le_80:
  assumes "p \<le> t" "0 < t"
  shows "progressOf p t \<le> 80"
  using progressOf_mono[OF assms(1), of t] progressOf_all[OF assms(2)] by simp

lemma floor_window:
  fixes b c e :: rat
  assumes "\<bar>b - c\<bar> \<le> e"
  shows "c - 1 - e < of_int \<lfloor>b\<rfloor>" and "of_int \<lfloor>b\<rfloor> \<le> c + e"
proof -
  from assms have "b - c \<le> e" and "c - b \<le> e" by (simp_all add: abs_le_iff)
  moreover have "of_int \<lfloor>b\<rfloor> \<le> b" and "b - 1 < of_int \<lfloor>b\<rfloor>" by linarith+
  ultimately show "c - 1 - e < of_int \<lfloor>b\<rfloor>" and "of_int \<lfloor>b\<rfloor> \<le> c + e"
    by linarith+
qed

lemma abs_times_70: "\<bar>70 * (z :: rat)\<bar> = 70 * \<bar>z\<bar>"
  by (simp add: abs_mult)

lemma progressOf_linear:
  assumes "1 \<le> p" "p \<le> t"
  shows "10 + 70 * (of_nat p / of_nat t) - 1 - 1 / 2 ^ 45 < (of_nat (progressOf p t) :: rat)"
    and "(of_nat (progressOf p t) :: rat) \<le> 10 + 70 * (of_nat p / of_nat t) + 1 / 2 ^ 45"
proof -
  let ?q = "(of_nat p :: rat) / of_nat t"
  let ?a = "toDouble ?q"
  let ?b = "toDouble (?a * 70)"
  from assms have t: "0 < t" by simp
  from assms have q0: "0 < ?q" by simp
  from assms have q1: "?q \<le> 1" by simp
  have ea: "\<bar>?a - ?q\<bar> \<le> ?q / 2 ^ 53" using q0 by (rule toDouble_err)
  have a1: "?a \<le> 1" using toDouble_mono[OF q1] by (simp add: toDouble_1)
  have a0: "0 < ?a"
  proof -
    from ea have "?q - ?q / 2 ^ 53 \<le> ?a" by (simp add: abs_le_iff)
    moreover have "0 < ?q - ?q / 2 ^ 53" using q0 by (simp add: field_simps)
    ultimately show ?thesis by simp
  qed
  then have "0 < ?a * 70" by simp
  then have "\<bar>?b - ?a * 70\<bar> \<le> ?a * 70 / 2 ^ 53" by (rule toDouble_err)
  with a1 have eb: "\<bar>?b - ?a * 70\<bar> \<le> 70 / 2 ^ 53" by simp
  from ea q1 have ea': "\<bar>?a - ?q\<bar> \<le> 1 / 2 ^ 53" by simp
  have "?b - 70 * ?q = (?b - ?a * 70) + 70 * (?a - ?q)" by (simp add: algebra_simps)
  then have "\<bar>?b - 70 * ?q\<bar> \<le> \<bar>?b - ?a * 70\<bar> + \<bar>70 * (?a - ?q)\<bar>"
    by (simp only: abs_triangle_ineq)
  moreover have "\<bar>70 * (?a - ?q)\<bar> = 70 * \<bar>?a - ?q\<bar>"
    by (rule abs_times_70)
  ultimately have "\<bar>?b - 70 * ?q\<bar> \<le> \<bar>?b - ?a * 70\<bar> + 70 * \<bar>?a - ?q\<bar>"
    by simp
  with eb ea' have "\<bar>?b - 70 * ?q\<bar> \<le> 70 / 2 ^ 53 + 70 * (1 / 2 ^ 53)" by linarith
  also have "\<dots> \<le> 1 / 2 ^ 45" by simp
  finally have err: "\<bar>?b - 70 * ?q\<bar> \<le> 1 / 2 ^ 45" .
  have b0: "0 \<le> ?b" by (rule toDouble_nonneg)
  have le80: "progressOf p t \<le> 80" using assms(2) t by (rule progressOf_le_80)
  have pr: "progressOf p t = 10 + nat \<lfloor>?b\<rfloor>"
    using le80 t by (simp add: progressOf_def min_def split: if_splits)
  have fl0: "0 \<le> \<lfloor>?b\<rfloor>" using b0 by simp
  have P: "(of_nat (progressOf p t) :: rat) = 10 + of_int \<lfloor>?b\<rfloor>"
    using fl0 by (simp add: pr)
  note w = floor_window[OF err]
  show "10 + 70 * ?q - 1 - 1 / 2 ^ 45 < (of_nat (progressOf p t) :: rat)"
    unfolding P using w(1) by linarith
  show "(of_nat (progressOf p t) :: rat) \<le> 10 + 70 * ?q + 1 / 2 ^ 45"
    unfolding P using w(2) by linarith
qed

section \<open>Properties of the walk\<close>

lemma fsCall_fault:
  "fsFault E op = Some m \<Longrightarrow> fsCall E op s = (Some (FilesystemError m), s)"
  by (simp add: fsCall_def)

lemma fsCall_ok:
  "fsFault E op = None \<Longrightarrow> fsCall E op s = (None, s\<lparr>fsops := fsops s @ [op]\<rparr>)"
  by (simp add: fsCall_def)

text \<open>
  Induction over a run of \<^verbatim>\<open>processDirectory\<close>: one case for each way an entry of the
  listing can be handled.
\<close>

lemma walk_induct
  [consumes 1, case_names Nil MkdirThrows InnerThrows DirDone Png CopyThrows CopyDone
     SpecialThrows SpecialDone]:
  assumes run: "processDirectory E jobId totalPngs sourceDir outputDir items s = (r, s')"
    and Nil: "\<And>src out s. P src out [] s None s"
    and MkdirThrows: "\<And>src out item children rest s m.
      fsFault E (Mkdir (join out item)) = Some m \<Longrightarrow>
      P src out (Dir item children # rest) s (Some (FilesystemError m)) s"
    and InnerThrows: "\<And>src out item children rest s e s2.
      fsFault E (Mkdir (join out item)) = None \<Longrightarrow>
      P (join src item) (join out item) children
        (s\<lparr>fsops := fsops s @ [Mkdir (join out item)]\<rparr>) (Some e) s2 \<Longrightarrow>
      P src out (Dir item children # rest) s (Some e) s2"
    and DirDone: "\<And>src out item children rest s s2 r s'.
      fsFault E (Mkdir (join out item)) = None \<Longrightarrow>
      P (join src item) (join out item) children
        (s\<lparr>fsops := fsops s @ [Mkdir (join out item)]\<rparr>) None s2 \<Longrightarrow>
      P src out rest s2 r s' \<Longrightarrow>
      P src out (Dir item children # rest) s r s'"
    and Png: "\<And>src out item fileBuffer rest s r s'.
      isPng item \<Longrightarrow>
      P src out rest (convertFile E jobId totalPngs out item fileBuffer s) r s' \<Longrightarrow>
      P src out (File item fileBuffer # rest) s r s'"
    and CopyThrows: "\<And>src out item fileBuffer rest s m.
      \<not> isPng item \<Longrightarrow>
      fsFault E (CopyFile (join src item) (join out item)) = Some m \<Longrightarrow>
      P src out (File item fileBuffer # rest) s (Some (FilesystemError m)) s"
    and CopyDone: "\<And>src out item fileBuffer rest s r s'.
      \<not> isPng item \<Longrightarrow>
      fsFault E (CopyFile (join src item) (join out item)) = None \<Longrightarrow>
      P src out rest
        (s\<lparr>fsops := fsops s @ [CopyFile (join src item) (join out item)]\<rparr>) r s' \<Longrightarrow>
      P src out (File item fileBuffer # rest) s r s'"
    and SpecialThrows: "\<And>src out item rest s m.
      fsFault E (CopyFile (join src item) (join out item)) = Some m \<Longrightarrow>
      P src out (Special item # rest) s (Some (FilesystemError m)) s"
    and SpecialDone: "\<And>src out item rest s r s'.
      fsFault E (CopyFile (join src item) (join out item)) = None \<Longrightarrow>
      P src out rest
        (s\<lparr>fsops := fsops s @ [CopyFile (join src item) (join out item)]\<rparr>) r s' \<Longrightarrow>
      P src out (Special item # rest) s r s'"
  shows "P sourceDir outputDir items s r s'"
  using assms
proof (induction E jobId totalPngs sourceDir outputDir items s arbitrary: r s'
       rule: processDirectory.induct)
  case (1 E jobId totalPngs sourceDir outputDir s)
  from "1.prems"(1) have "r = None" and "s' = s" by simp_all
  then show ?case using "1.prems"(2) by simp
next
  case (2 E jobId totalPngs sourceDir outputDir item children rest s)
  note rules = "2.prems"(2-10)
  let ?op = "Mkdir (join outputDir item)"
  let ?s1 = "s\<lparr>fsops := fsops s @ [?op]\<rparr>"
  show ?case
  proof (cases "fsFault E ?op")
    case (Some m)
    then have "fsCall E ?op s = (Some (FilesystemError m), s)" by (rule fsCall_fault)
    with "2.prems"(1) have "r = Some (FilesystemError m)" and "s' = s" by simp_all
    then show ?thesis using "2.prems"(3)[OF Some] by simp
  next
    case None
    then have c: "fsCall E ?op s = (None, ?s1)" by (rule fsCall_ok)
    obtain r2 s2 where w: "processDirectory E jobId totalPngs (join sourceDir item)
        (join outputDir item) children ?s1 = (r2, s2)"
      by (cases "processDirectory E jobId totalPngs (join sourceDir item)
        (join outputDir item) children ?s1")
    have inner: "P (join sourceDir item) (join outputDir item) children ?s1 r2 s2"
      by (rule "2.IH"(1)[OF c[symmetric] refl w rules])
    show ?thesis
    proof (cases r2)
      case (Some e)
      with c w "2.prems"(1) have "r = Some e" and "s' = s2" by simp_all
      then show ?thesis using "2.prems"(4)[OF None] inner Some by simp
    next
      case N2: None
      with c w "2.prems"(1) have w3:
        "processDirectory E jobId totalPngs sourceDir outputDir rest s2 = (r, s')" by simp
      have "P sourceDir outputDir rest s2 r s'"
        by (rule "2.IH"(2)[OF c[symmetric] refl w[symmetric] N2 w3 rules])
      with inner N2 show ?thesis using "2.prems"(5)[OF None] by simp
    qed
  qed
next
  case (3 E jobId totalPngs sourceDir outputDir item fileBuffer rest s)
  note rules = "3.prems"(2-10)
  let ?op = "CopyFile (join sourceDir item) (join outputDir item)"
  let ?s1 = "s\<lparr>fsops := fsops s @ [?op]\<rparr>"
  show ?case
  proof (cases "isPng item")
    case True
    with "3.prems"(1) have w: "processDirectory E jobId totalPngs sourceDir outputDir rest
        (convertFile E jobId totalPngs outputDir item fileBuffer s) = (r, s')" by simp
    have "P sourceDir outputDir rest
        (convertFile E jobId totalPngs outputDir item fileBuffer s) r s'"
      by (rule "3.IH"(1)[OF True w rules])
    then show ?thesis using "3.prems"(6)[OF True] by simp
  next
    case False
    show ?thesis
    proof (cases "fsFault E ?op")
      case (Some m)
      then have "fsCall E ?op s = (Some (FilesystemError m), s)" by (rule fsCall_fault)
      with False "3.prems"(1) have "r = Some (FilesystemError m)" and "s' = s" by simp_all
      then show ?thesis using "3.prems"(7)[OF False Some] by simp
    next
      case None
      then have c: "fsCall E ?op s = (None, ?s1)" by (rule fsCall_ok)
      with False "3.prems"(1) have w:
        "processDirectory E jobId totalPngs sourceDir outputDir rest ?s1 = (r, s')" by simp
      have "P sourceDir outputDir rest ?s1 r s'"
        by (rule "3.IH"(2)[OF False c[symmetric] refl w rules])
      then show ?thesis using "3.prems"(8)[OF False None] by simp
    qed
  qed
next
  case (4 E jobId totalPngs sourceDir outputDir item rest s)
  note rules = "4.prems"(2-10)
  let ?op = "CopyFile (join sourceDir item) (join outputDir item)"
  let ?s1 = "s\<lparr>fsops := fsops s @ [?op]\<rparr>"
  show ?case
  proof (cases "fsFault E ?op")
    case (Some m)
    then have "fsCall E ?op s = (Some (FilesystemError m), s)" by (rule fsCall_fault)
    with "4.prems"(1) have "r = Some (FilesystemError m)" and "s' = s" by simp_all
    then show ?thesis using "4.prems"(9)[OF Some] by simp
  next
    case None
    then have c: "fsCall E ?op s = (None, ?s1)" by (rule fsCall_ok)
    with "4.prems"(1) have w:
      "processDirectory E jobId totalPngs sourceDir outputDir rest ?s1 = (r, s')" by simp
    have "P sourceDir outputDir rest ?s1 r s'"
      by (rule "4.IH"[OF c[symmetric] refl w rules])
    then show ?thesis using "4.prems"(10)[OF None] by simp
  qed
qed

lemma walked_refl: "walked E jobId totalPngs s s"
  by (simp add: walked_def)

lemma walked_fsops: "walked E jobId totalPngs (s\<lparr>fsops := ops\<rparr>) s' = walked E jobId totalPngs s s'"
  by (simp add: walked_def)

lemma upt_split: "i \<le> j \<Longrightarrow> j \<le> k \<Longrightarrow> [i..<k] = [i..<j] @ [j..<k]"
  using upt_add_eq_append[of i j "k - j"] by simp

lemma walked_trans:
  assumes "walked E jobId totalPngs s1 s2" and "walked E jobId totalPngs s2 s3"
  shows "walked E jobId totalPngs s1 s3"
proof -
  let ?f = "\<lambda>n. convertedJob E jobId n totalPngs"
  from assms have le: "processedPngs s1 \<le> processedPngs s2" "processedPngs s2 \<le> processedPngs s3"
    by (simp_all add: walked_def)
  from assms have p2: "published s2 = published s1 @ map ?f [Suc (processedPngs s1)..<Suc (processedPngs s2)]"
    and p3: "published s3 = published s2 @ map ?f [Suc (processedPngs s2)..<Suc (processedPngs s3)]"
    by (simp_all add: walked_def)
  have "[Suc (processedPngs s1)..<Suc (processedPngs s3)]
        = [Suc (processedPngs s1)..<Suc (processedPngs s2)]
          @ [Suc (processedPngs s2)..<Suc (processedPngs s3)]"
    using le by (intro upt_split) simp_all
  then have "published s3 = published s1 @ map ?f [Suc (processedPngs s1)..<Suc (processedPngs s3)]"
    using p2 p3 by (simp only: map_append append_assoc)
  with le show ?thesis by (simp add: walked_def)
qed

lemma convertFile_cases:
  "(\<not> attemptOk E outputDir item fileBuffer \<and>
      convertFile E jobId totalPngs outputDir item fileBuffer s = s)
   \<or> (attemptOk E outputDir item fileBuffer \<and>
      (\<exists>w. convert (sharp E) fileBuffer = Inr w \<and>
        convertFile E jobId totalPngs outputDir item fileBuffer s =
          \<lparr>processedPngs = processedPngs s + 1,
           published = published s @ [convertedJob E jobId (processedPngs s + 1) totalPngs],
           fsops = fsops s @ [WriteFile (join outputDir (parseName item @ ''.webp'')) w]\<rparr>))"
  by (cases "convert (sharp E) fileBuffer")
     (auto simp add: convertFile_def attemptOk_def setJob_def Let_def split: option.splits)

lemma convertFile_count:
  "processedPngs (convertFile E jobId totalPngs outputDir item fileBuffer s) =
     processedPngs s + (if attemptOk E outputDir item fileBuffer then 1 else 0)"
  using convertFile_cases[of E outputDir item fileBuffer jobId totalPngs s] by auto

lemma walked_convertFile:
  "walked E jobId totalPngs s (convertFile E jobId totalPngs outputDir item fileBuffer s)"
  using convertFile_cases[of E outputDir item fileBuffer jobId totalPngs s]
  by (auto simp add: walked_def)

lemma walk_walked:
  assumes "processDirectory E jobId totalPngs sourceDir outputDir items s = (r, s')"
  shows "walked E jobId totalPngs s s'"
  using assms
proof (induction rule: walk_induct)
  case (DirDone src out item children rest s s2 r s')
  from DirDone(2) have "walked E jobId totalPngs s s2" by (simp add: walked_fsops)
  then show ?case using DirDone(3) by (rule walked_trans)
next
  case (Png src out item fileBuffer rest s r s')
  have "walked E jobId totalPngs s (convertFile E jobId totalPngs out item fileBuffer s)"
    by (rule walked_convertFile)
  then show ?case using Png(2) by (rule walked_trans)
qed (simp_all add: walked_refl walked_fsops)


lemma walk_count:
  assumes "processDirectory E jobId totalPngs sourceDir outputDir items s = (r, s')"
  shows "processedPngs s' \<le> processedPngs s + succeededFiles E outputDir items
         \<and> (r = None \<longrightarrow> processedPngs s' = processedPngs s + succeededFiles E outputDir items)"
  using assms
  by (induction rule: walk_induct) (auto simp add: convertFile_count)

lemma walk_exn:
  assumes "processDirectory E jobId totalPngs sourceDir outputDir items s = (r, s')"
  shows "\<forall>e. r = Some e \<longrightarrow> (\<exists>m op. e = FilesystemError m \<and> fsFault E op = Some m)"
  using assms
  by (induction rule: walk_induct) auto

lemma walk_no_fault:
  assumes "processDirectory E jobId totalPngs sourceDir outputDir items s = (r, s')"
    and "\<And>p. fsFault E (Mkdir p) = None" and "\<And>a b. fsFault E (CopyFile a b) = None"
  shows "r = None"
  using assms
  by (induction rule: walk_induct) simp_all

lemma countPngs_shift: "countPngs items (n + k) = countPngs items n + k"
proof (induction items n arbitrary: k rule: countPngs.induct)
  case (1 totalPngs)
  show ?case by simp
next
  case (2 item children rest totalPngs)
  have "countPngs (Dir item children # rest) (totalPngs + k)
        = countPngs rest (countPngs children (totalPngs + k))" by simp
  also have "\<dots> = countPngs rest (countPngs children totalPngs + k)"
    by (simp only: "2.IH"(1))
  also have "\<dots> = countPngs rest (countPngs children totalPngs) + k"
    by (rule "2.IH"(2))
  finally show ?case by simp
next
  case (3 item fileBuffer rest totalPngs)
  have "(if isPng item then totalPngs + k + 1 else totalPngs + k)
        = (if isPng item then totalPngs + 1 else totalPngs) + k" by simp
  then have "countPngs (File item fileBuffer # rest) (totalPngs + k)
        = countPngs rest ((if isPng item then totalPngs + 1 else totalPngs) + k)"
    by (simp only: countPngs.simps)
  also have "\<dots> = countPngs rest (if isPng item then totalPngs + 1 else totalPngs) + k"
    by (rule "3.IH")
  finally show ?case by simp
next
  case (4 item rest totalPngs)
  have "(if isPng item then totalPngs + k + 1 else totalPngs + k)
        = (if isPng item then totalPngs + 1 else totalPngs) + k" by simp
  then have "countPngs (Special item # rest) (totalPngs + k)
        = countPngs rest ((if isPng item then totalPngs + 1 else totalPngs) + k)"
    by (simp only: countPngs.simps)
  also have "\<dots> = countPngs rest (if isPng item then totalPngs + 1 else totalPngs) + k"
    by (rule "4.IH")
  finally show ?case by simp
qed

lemma countPngs_acc: "countPngs items n = n + countPngs items 0"
  using countPngs_shift[of items 0 n] by simp

lemma convertible_le_count: "convertibleFiles items \<le> countPngs items 0"
proof (induction items rule: convertibleFiles.induct)
  case 1
  show ?case by simp
next
  case (2 item children rest)
  have "countPngs (Dir item children # rest) 0 = countPngs children 0 + countPngs rest 0"
    using countPngs_acc[of rest "countPngs children 0"] by simp
  with 2 show ?case by simp
next
  case (3 item fileBuffer rest)
  have "countPngs (File item fileBuffer # rest) 0
        = (if isPng item then 1 else 0) + countPngs rest 0"
    using countPngs_acc[of rest "if isPng item then 0 + 1 else 0"] by simp
  with 3 show ?case by simp
next
  case (4 item rest)
  have "countPngs (Special item # rest) 0
        = (if isPng item then 1 else 0) + countPngs rest 0"
    using countPngs_acc[of rest "if isPng item then 0 + 1 else 0"] by simp
  with 4 show ?case by simp
qed

lemma succeeded_plus_failed:
  "succeededFiles E outputDir items + failedFiles E outputDir items = convertibleFiles items"
  by (induction E outputDir items rule: succeededFiles.induct) simp_all

lemma succeeded_le_count: "succeededFiles E outputDir items \<le> countPngs items 0"
  using succeeded_plus_failed[of E outputDir items] convertible_le_count[of items] by simp

section \<open>Properties of a run of \<^verbatim>\<open>processFilesAsync\<close>\<close>

lemma tryBlock_mkdir_extract:
  assumes "fsFault E (Mkdir (extractDirOf E jobId)) = Some m"
  shows "tryBlock E jobId fileBuffer = (Some (FilesystemError m), startState E jobId)"
  using assms by (simp add: tryBlock_def fsCall_def startState_def)

lemma tryBlock_mkdir_output:
  assumes "fsFault E (Mkdir (extractDirOf E jobId)) = None"
    and "fsFault E (Mkdir (outputDirOf E jobId)) = Some m"
  shows "tryBlock E jobId fileBuffer =
     (Some (FilesystemError m), (startState E jobId)\<lparr>fsops := [Mkdir (extractDirOf E jobId)]\<rparr>)"
  using assms by (simp add: tryBlock_def fsCall_def startState_def)

lemma tryBlock_extract:
  assumes "fsFault E (Mkdir (extractDirOf E jobId)) = None"
    and "fsFault E (Mkdir (outputDirOf E jobId)) = None"
    and "extractAllTo E fileBuffer = Inl m"
  shows "tryBlock E jobId fileBuffer =
     (Some (ArchiveError m),
      (startState E jobId)\<lparr>fsops := [Mkdir (extractDirOf E jobId), Mkdir (outputDirOf E jobId)]\<rparr>)"
  using assms by (simp add: tryBlock_def fsCall_def startState_def)

lemma tryBlock_walk:
  assumes "fsFault E (Mkdir (extractDirOf E jobId)) = None"
    and "fsFault E (Mkdir (outputDirOf E jobId)) = None"
    and "extractAllTo E fileBuffer = Inr items"
    and "processDirectory E jobId (countPngs items 0) (extractDirOf E jobId)
           (outputDirOf E jobId) items (extractedState E jobId) = (Some e, s4)"
  shows "tryBlock E jobId fileBuffer = (Some e, s4)"
  using assms by (simp add: tryBlock_def fsCall_def extractedState_def setJob_def)

lemma tryBlock_zip:
  assumes "fsFault E (Mkdir (extractDirOf E jobId)) = None"
    and "fsFault E (Mkdir (outputDirOf E jobId)) = None"
    and "extractAllTo E fileBuffer = Inr items"
    and "processDirectory E jobId (countPngs items 0) (extractDirOf E jobId)
           (outputDirOf E jobId) items (extractedState E jobId) = (None, s4)"
    and "fsFault E (WriteZip (outputZipPathOf E jobId)) = Some m"
  shows "tryBlock E jobId fileBuffer = (Some (ArchiveError m), setJob (zippingJob E jobId) s4)"
  using assms by (simp add: tryBlock_def fsCall_def extractedState_def setJob_def)

lemma tryBlock_done:
  assumes "fsFault E (Mkdir (extractDirOf E jobId)) = None"
    and "fsFault E (Mkdir (outputDirOf E jobId)) = None"
    and "extractAllTo E fileBuffer = Inr items"
    and "processDirectory E jobId (countPngs items 0) (extractDirOf E jobId)
           (outputDirOf E jobId) items (extractedState E jobId) = (None, s4)"
    and "fsFault E (WriteZip (outputZipPathOf E jobId)) = None"
  shows "tryBlock E jobId fileBuffer =
     (None, \<lparr>processedPngs = processedPngs s4,
             published = published s4 @ [zippingJob E jobId,
                           completedJob E jobId (processedPngs s4) (countPngs items 0)],
             fsops = fsops s4 @ [WriteZip (outputZipPathOf E jobId)]\<rparr>)"
  using assms by (simp add: tryBlock_def fsCall_def extractedState_def setJob_def)



lemma madeBy_extract: "madeBy (tempDirOf E jobId) (Mkdir (extractDirOf E jobId))"
  by (simp add: madeBy_def extractDirOf_def join_def)

lemma exists_after_mkdir:
  "Mkdir (extractDirOf E jobId) \<in> set (fsops s) \<Longrightarrow> existsSync E s (tempDirOf E jobId)"
  using madeBy_extract[of E jobId] by (auto simp add: existsSync_def list_ex_iff)



text \<open>What the walk of a job has published and counted when it ends, either way.\<close>

lemma job_walk:
  assumes "processDirectory E jobId (countPngs items 0) (extractDirOf E jobId)
           (outputDirOf E jobId) items (extractedState E jobId) = (r, s4)"
  shows "published s4 = [extractingJob E jobId, convertingJob E jobId]
           @ walkRecords E jobId (countPngs items 0) (processedPngs s4)"
    and "processedPngs s4 \<le> succeededFiles E (outputDirOf E jobId) items"
    and "processedPngs s4 \<le> countPngs items 0"
    and "r = None \<Longrightarrow> processedPngs s4 = succeededFiles E (outputDirOf E jobId) items"
proof -
  from walk_walked[OF assms]
  show "published s4 = [extractingJob E jobId, convertingJob E jobId]
           @ walkRecords E jobId (countPngs items 0) (processedPngs s4)"
    by (simp add: walked_def extractedState_def walkRecords_def)
  from walk_count[OF assms]
  show le: "processedPngs s4 \<le> succeededFiles E (outputDirOf E jobId) items"
    and "r = None \<Longrightarrow> processedPngs s4 = succeededFiles E (outputDirOf E jobId) items"
    by (simp_all add: extractedState_def)
  from le succeeded_le_count[of E "outputDirOf E jobId" items]
  show "processedPngs s4 \<le> countPngs items 0" by simp
qed

text \<open>
  The records a \<^verbatim>\<open>try\<close> block has published when it ends: the first record, then (after
  extraction) the converting record and the records of the walk, then the zipping record,
  then the completed record; it ends without an exception exactly in the last case.
\<close>

lemma tryBlock_shape:
  assumes "tryBlock E jobId fileBuffer = (r, s)"
  shows "\<exists>t n. n \<le> t \<and>
     ((r \<noteq> None \<and> published s = [extractingJob E jobId])
      \<or> (r \<noteq> None \<and> published s =
            [extractingJob E jobId, convertingJob E jobId] @ walkRecords E jobId t n)
      \<or> (r \<noteq> None \<and> published s =
            [extractingJob E jobId, convertingJob E jobId] @ walkRecords E jobId t n
              @ [zippingJob E jobId])
      \<or> (r = None \<and> published s =
            [extractingJob E jobId, convertingJob E jobId] @ walkRecords E jobId t n
              @ [zippingJob E jobId, completedJob E jobId n t]))"
proof (cases "fsFault E (Mkdir (extractDirOf E jobId))")
  case (Some m)
  from tryBlock_mkdir_extract[OF Some, of fileBuffer] assms
  have "r \<noteq> None \<and> published s = [extractingJob E jobId]" by (auto simp add: startState_def)
  then show ?thesis by blast
next
  case N1: None
  show ?thesis
  proof (cases "fsFault E (Mkdir (outputDirOf E jobId))")
    case (Some m)
    from tryBlock_mkdir_output[OF N1 Some, of fileBuffer] assms
    have "r \<noteq> None \<and> published s = [extractingJob E jobId]" by (auto simp add: startState_def)
    then show ?thesis by blast
  next
    case N2: None
    show ?thesis
    proof (cases "extractAllTo E fileBuffer")
      case (Inl m)
      from tryBlock_extract[OF N1 N2 Inl] assms
      have "r \<noteq> None \<and> published s = [extractingJob E jobId]" by (auto simp add: startState_def)
      then show ?thesis by blast
    next
      case (Inr items)
      let ?t = "countPngs items 0"
      obtain r4 s4 where w: "processDirectory E jobId ?t (extractDirOf E jobId)
           (outputDirOf E jobId) items (extractedState E jobId) = (r4, s4)"
        by (cases "processDirectory E jobId ?t (extractDirOf E jobId)
           (outputDirOf E jobId) items (extractedState E jobId)")
      note jw = job_walk[OF w]
      show ?thesis
      proof (cases r4)
        case (Some e)
        from tryBlock_walk[OF N1 N2 Inr w[unfolded Some]] assms
        have "r \<noteq> None" and "s = s4" by simp_all
        with jw(1) jw(3) show ?thesis by blast
      next
        case N4: None
        show ?thesis
        proof (cases "fsFault E (WriteZip (outputZipPathOf E jobId))")
          case (Some m)
          from tryBlock_zip[OF N1 N2 Inr w[unfolded N4] Some] assms
          have "r \<noteq> None" and "s = setJob (zippingJob E jobId) s4" by simp_all
          with jw(1) have "r \<noteq> None \<and> published s =
            [extractingJob E jobId, convertingJob E jobId]
              @ walkRecords E jobId ?t (processedPngs s4) @ [zippingJob E jobId]"
            by (simp add: setJob_def)
          with jw(3) show ?thesis by blast
        next
          case N5: None
          from tryBlock_done[OF N1 N2 Inr w[unfolded N4] N5] assms
          have "r = None" and "published s = published s4 @ [zippingJob E jobId,
                           completedJob E jobId (processedPngs s4) ?t]" by auto
          with jw(1) have "r = None \<and> published s =
            [extractingJob E jobId, convertingJob E jobId]
              @ walkRecords E jobId ?t (processedPngs s4)
              @ [zippingJob E jobId, completedJob E jobId (processedPngs s4) ?t]"
            by simp
          with jw(3) show ?thesis by blast
        qed
      qed
    qed
  qed
qed

lemma cleanupOnError_published: "published (cleanupOnError E jobId s) = published s"
  by (simp add: cleanupOnError_def split: option.splits)

lemma processFilesAsync_ok:
  "tryBlock E jobId fileBuffer = (None, s) \<Longrightarrow> processFilesAsync E jobId fileBuffer = s"
  by (simp add: processFilesAsync_def)

lemma processFilesAsync_failed:
  "tryBlock E jobId fileBuffer = (Some e, s) \<Longrightarrow>
   published (processFilesAsync E jobId fileBuffer)
     = published s @ [failedJob E jobId (message e)]"
  by (simp add: processFilesAsync_def cleanupOnError_published setJob_def)

text \<open>The records of a whole run: those of the \<^verbatim>\<open>try\<close> block, then the failed one if it threw.\<close>

lemma run_shape:
  "\<exists>t n. n \<le> t \<and>
     ((\<exists>msg. published (processFilesAsync E jobId fileBuffer) =
            [extractingJob E jobId, failedJob E jobId msg])
      \<or> (\<exists>msg. published (processFilesAsync E jobId fileBuffer) =
            [extractingJob E jobId, convertingJob E jobId] @ walkRecords E jobId t n
              @ [failedJob E jobId msg])
      \<or> (\<exists>msg. published (processFilesAsync E jobId fileBuffer) =
            [extractingJob E jobId, convertingJob E jobId] @ walkRecords E jobId t n
              @ [zippingJob E jobId, failedJob E jobId msg])
      \<or> published (processFilesAsync E jobId fileBuffer) =
            [extractingJob E jobId, convertingJob E jobId] @ walkRecords E jobId t n
              @ [zippingJob E jobId, completedJob E jobId n t])"
proof -
  obtain r s where tb: "tryBlock E jobId fileBuffer = (r, s)"
    by (cases "tryBlock E jobId fileBuffer")
  from tryBlock_shape[OF tb] obtain t n where le: "n \<le> t" and sh:
    "(r \<noteq> None \<and> published s = [extractingJob E jobId])
      \<or> (r \<noteq> None \<and> published s =
            [extractingJob E jobId, convertingJob E jobId] @ walkRecords E jobId t n)
      \<or> (r \<noteq> None \<and> published s =
            [extractingJob E jobId, convertingJob E jobId] @ walkRecords E jobId t n
              @ [zippingJob E jobId])
      \<or> (r = None \<and> published s =
            [extractingJob E jobId, convertingJob E jobId] @ walkRecords E jobId t n
              @ [zippingJob E jobId, completedJob E jobId n t])"
    by blast
  show ?thesis
  proof (cases r)
    case None
    with tb have "processFilesAsync E jobId fileBuffer = s" by (simp add: processFilesAsync_ok)
    with sh None le show ?thesis by blast
  next
    case (Some e)
    with tb have "published (processFilesAsync E jobId fileBuffer)
        = published s @ [failedJob E jobId (message e)]" by (simp add: processFilesAsync_failed)
    with sh Some le show ?thesis by (elim disjE) (simp; blast)+
  qed
qed

lemma walkRecords_mem:
  "r \<in> set (walkRecords E jobId t n) \<longleftrightarrow> (\<exists>k. 1 \<le> k \<and> k \<le> n \<and> r = convertedJob E jobId k t)"
  by (auto simp add: walkRecords_def)

text \<open>Every record a run publishes is one of the six object literals of the code.\<close>

lemma run_records:
  assumes "r \<in> set (published (processFilesAsync E jobId fileBuffer))"
  shows "r = extractingJob E jobId \<or> r = convertingJob E jobId \<or> r = zippingJob E jobId
     \<or> (\<exists>msg. r = failedJob E jobId msg)
     \<or> (\<exists>k t. 1 \<le> k \<and> k \<le> t \<and> r = convertedJob E jobId k t)
     \<or> (\<exists>n t. n \<le> t \<and> r = completedJob E jobId n t)"
proof -
  let ?R = "published (processFilesAsync E jobId fileBuffer)"
  from run_shape[of E jobId fileBuffer] obtain t n where le: "n \<le> t" and sh:
    "(\<exists>msg. ?R = [extractingJob E jobId, failedJob E jobId msg])
      \<or> (\<exists>msg. ?R = [extractingJob E jobId, convertingJob E jobId] @ walkRecords E jobId t n
              @ [failedJob E jobId msg])
      \<or> (\<exists>msg. ?R = [extractingJob E jobId, convertingJob E jobId] @ walkRecords E jobId t n
              @ [zippingJob E jobId, failedJob E jobId msg])
      \<or> ?R = [extractingJob E jobId, convertingJob E jobId] @ walkRecords E jobId t n
              @ [zippingJob E jobId, completedJob E jobId n t]"
    by (elim exE conjE)
  have w: "\<exists>k t. 1 \<le> k \<and> k \<le> t \<and> r = convertedJob E jobId k t"
    if "r \<in> set (walkRecords E jobId t n)"
  proof -
    from that obtain k where "1 \<le> k" "k \<le> n" "r = convertedJob E jobId k t"
      by (auto simp add: walkRecords_mem)
    with le have "1 \<le> k \<and> k \<le> t \<and> r = convertedJob E jobId k t" by simp
    then show ?thesis by blast
  qed
  from sh show ?thesis
  proof (elim disjE exE)
    fix msg assume "?R = [extractingJob E jobId, failedJob E jobId msg]"
    with assms show ?thesis by auto
  next
    fix msg assume "?R = [extractingJob E jobId, convertingJob E jobId] @ walkRecords E jobId t n
              @ [failedJob E jobId msg]"
    with assms have "r = extractingJob E jobId \<or> r = convertingJob E jobId
        \<or> r \<in> set (walkRecords E jobId t n) \<or> r = failedJob E jobId msg" by auto
    with w show ?thesis by blast
  next
    fix msg assume "?R = [extractingJob E jobId, convertingJob E jobId] @ walkRecords E jobId t n
              @ [zippingJob E jobId, failedJob E jobId msg]"
    with assms have "r = extractingJob E jobId \<or> r = convertingJob E jobId
        \<or> r \<in> set (walkRecords E jobId t n) \<or> r = zippingJob E jobId
        \<or> r = failedJob E jobId msg" by auto
    with w show ?thesis by blast
  next
    assume "?R = [extractingJob E jobId, convertingJob E jobId] @ walkRecords E jobId t n
              @ [zippingJob E jobId, completedJob E jobId n t]"
    with assms have "r = extractingJob E jobId \<or> r = convertingJob E jobId
        \<or> r \<in> set (walkRecords E jobId t n) \<or> r = zippingJob E jobId
        \<or> r = completedJob E jobId n t" by auto
    with w le show ?thesis by blast
  qed
qed


lemma no_fault_completes:
  assumes "\<And>p. fsFault E (Mkdir p) = None" and "\<And>a b. fsFault E (CopyFile a b) = None"
    and "fsFault E (WriteZip (outputZipPathOf E jobId)) = None"
    and "extractAllTo E fileBuffer = Inr items"
  shows "fst (tryBlock E jobId fileBuffer) = None"
proof -
  obtain r4 s4 where w: "processDirectory E jobId (countPngs items 0) (extractDirOf E jobId)
           (outputDirOf E jobId) items (extractedState E jobId) = (r4, s4)"
    by (cases "processDirectory E jobId (countPngs items 0) (extractDirOf E jobId)
           (outputDirOf E jobId) items (extractedState E jobId)")
  from walk_no_fault[OF w assms(1) assms(2)] have "r4 = None" .
  with w tryBlock_done[OF assms(1) assms(1) assms(4) _ assms(3), of s4] show ?thesis by simp
qed

section \<open>Job identifiers and the registry\<close>

lemma digitValue_digitChar: "d < 10 \<Longrightarrow> digitValue (digitChar d) = d"
  by (simp add: digitValue_def digitChar_def)

lemma parseDecimal_snoc: "parseDecimal (s @ [c]) = 10 * parseDecimal s + digitValue c"
  by (simp add: parseDecimal_def)

lemma parseDecimal_toString: "parseDecimal (toString n) = n"
proof (induction n rule: toString.induct)
  case (1 n)
  show ?case
  proof (cases "n < 10")
    case True
    then have "toString n = [digitChar n]" by (subst toString.simps) simp
    with True show ?thesis by (simp add: parseDecimal_def digitValue_digitChar)
  next
    case False
    then have "toString n = toString (n div 10) @ [digitChar (n mod 10)]"
      by (subst toString.simps) simp
    then have "parseDecimal (toString n) = 10 * parseDecimal (toString (n div 10))
        + digitValue (digitChar (n mod 10))"
      by (simp only: parseDecimal_snoc)
    also have "\<dots> = 10 * (n div 10) + n mod 10"
      using "1.IH"[OF False] by (simp add: digitValue_digitChar)
    finally show ?thesis by simp
  qed
qed

lemma digitChar_values:
  "digitChar 0 = CHR ''0''" "digitChar (Suc 0) = CHR ''1''" "digitChar 2 = CHR ''2''"
  "digitChar 3 = CHR ''3''" "digitChar 4 = CHR ''4''" "digitChar 5 = CHR ''5''"
  "digitChar 6 = CHR ''6''" "digitChar 7 = CHR ''7''" "digitChar 8 = CHR ''8''"
  "digitChar 9 = CHR ''9''"
  by code_simp+

lemma toString_example: "toString 1700000000000 = ''1700000000000''"
  by (simp add: toString.simps digitChar_values)

lemma toString_inj: "toString a = toString b \<Longrightarrow> a = b"
  by (metis parseDecimal_toString)

lemma tempDirOf_inj: "tempDirOf E a = tempDirOf E b \<Longrightarrow> a = b"
  by (simp add: tempDirOf_def join_def)

lemma foldl_store_last:
  "rs \<noteq> [] \<Longrightarrow> foldl (\<lambda>m r. m(jobId \<mapsto> r)) reg rs jobId = Some (last rs)"
  by (induction rs arbitrary: reg rule: rev_induct) simp_all

lemma foldl_store_other:
  "k \<noteq> jobId \<Longrightarrow> foldl (\<lambda>m r. m(jobId \<mapsto> r)) reg rs k = reg k"
  by (induction rs arbitrary: reg rule: rev_induct) simp_all

lemma storeAll_last:
  "rs \<noteq> [] \<Longrightarrow> processingJobs (storeAll jobId rs S) jobId = Some (last rs)"
  by (simp add: storeAll_def foldl_store_last)

lemma storeAll_other:
  "k \<noteq> jobId \<Longrightarrow> processingJobs (storeAll jobId rs S) k = processingJobs S k"
  by (simp add: storeAll_def foldl_store_other)

lemma storeAll_Nil: "storeAll jobId [] S = S"
  by (simp add: storeAll_def)

lemma published_first:
  "\<exists>rest. published (processFilesAsync E jobId fileBuffer) = extractingJob E jobId # rest"
proof -
  from run_shape[of E jobId fileBuffer] obtain t n where
    "(\<exists>msg. published (processFilesAsync E jobId fileBuffer) =
            [extractingJob E jobId, failedJob E jobId msg])
      \<or> (\<exists>msg. published (processFilesAsync E jobId fileBuffer) =
            [extractingJob E jobId, convertingJob E jobId] @ walkRecords E jobId t n
              @ [failedJob E jobId msg])
      \<or> (\<exists>msg. published (processFilesAsync E jobId fileBuffer) =
            [extractingJob E jobId, convertingJob E jobId] @ walkRecords E jobId t n
              @ [zippingJob E jobId, failedJob E jobId msg])
      \<or> published (processFilesAsync E jobId fileBuffer) =
            [extractingJob E jobId, convertingJob E jobId] @ walkRecords E jobId t n
              @ [zippingJob E jobId, completedJob E jobId n t]"
    by (elim exE conjE)
  then show ?thesis by (elim disjE exE) simp_all
qed


section \<open>Three concrete runs\<close>

lemma isPng_a_png: "isPng ''a.png''"
  by code_simp

lemma convert_stepped_png: "convert steppedCodec [137, 80, 78, 71] = Inr [82, 73, 70, 70]"
  using riff_fits by (simp add: convert_def convertToWebP.simps steppedCodec_def)

lemma convert_rejecting_png:
  "convert rejectingCodec [137, 80, 78, 71]
     = Inl (CodecError ''Input buffer contains unsupported image format'')"
  by (simp add: convert_def convertToWebP.simps rejectingCodec_def)

lemma countPngs_onePng: "countPngs onePngTree 0 = 1"
  by (simp add: onePngTree_def isPng_a_png)

lemma working_try:
  "tryBlock workingEnv jobId fileBuffer =
     (None,
      \<lparr>processedPngs = 1,
       published = [extractingJob workingEnv jobId, convertingJob workingEnv jobId,
                    convertedJob workingEnv jobId 1 1, zippingJob workingEnv jobId,
                    completedJob workingEnv jobId 1 1],
       fsops = [Mkdir (extractDirOf workingEnv jobId), Mkdir (outputDirOf workingEnv jobId),
                ExtractAllTo (extractDirOf workingEnv jobId),
                WriteFile (join (outputDirOf workingEnv jobId) (parseName ''a.png'' @ ''.webp''))
                  [82, 73, 70, 70],
                WriteZip (outputZipPathOf workingEnv jobId)]\<rparr>)"
proof -
  have f: "fsFault workingEnv = noFault" and x: "extractAllTo workingEnv = onePngArchive"
    and c: "sharp workingEnv = steppedCodec"
    by (simp_all add: workingEnv_def)
  show ?thesis
    by (simp add: tryBlock_def fsCall_def f x c noFault_def onePngArchive_def countPngs_onePng
        setJob_def Let_def)
       (simp add: onePngTree_def isPng_a_png convertFile_def convert_stepped_png f c
        noFault_def setJob_def Let_def)
qed

lemma working_run:
  "published (processFilesAsync workingEnv jobId fileBuffer) =
     [extractingJob workingEnv jobId, convertingJob workingEnv jobId,
      convertedJob workingEnv jobId 1 1, zippingJob workingEnv jobId,
      completedJob workingEnv jobId 1 1]"
  by (simp add: processFilesAsync_def working_try)

lemma rejecting_try:
  "tryBlock rejectingEnv jobId fileBuffer =
     (None,
      \<lparr>processedPngs = 0,
       published = [extractingJob rejectingEnv jobId, convertingJob rejectingEnv jobId,
                    zippingJob rejectingEnv jobId, completedJob rejectingEnv jobId 0 1],
       fsops = [Mkdir (extractDirOf rejectingEnv jobId), Mkdir (outputDirOf rejectingEnv jobId),
                ExtractAllTo (extractDirOf rejectingEnv jobId),
                WriteZip (outputZipPathOf rejectingEnv jobId)]\<rparr>)"
proof -
  have f: "fsFault rejectingEnv = noFault" and x: "extractAllTo rejectingEnv = onePngArchive"
    and c: "sharp rejectingEnv = rejectingCodec"
    by (simp_all add: rejectingEnv_def)
  show ?thesis
    by (simp add: tryBlock_def fsCall_def f x c noFault_def onePngArchive_def countPngs_onePng
        setJob_def Let_def)
       (simp add: onePngTree_def isPng_a_png convertFile_def convert_rejecting_png f c
        noFault_def setJob_def Let_def)
qed

lemma rejecting_run:
  "published (processFilesAsync rejectingEnv jobId fileBuffer) =
     [extractingJob rejectingEnv jobId, convertingJob rejectingEnv jobId,
      zippingJob rejectingEnv jobId, completedJob rejectingEnv jobId 0 1]"
  by (simp add: processFilesAsync_def rejecting_try)

lemma corrupt_try:
  "tryBlock corruptEnv jobId fileBuffer =
     (Some (ArchiveError ''Invalid or unsupported zip format. No END header found''),
      \<lparr>processedPngs = 0,
       published = [extractingJob corruptEnv jobId],
       fsops = [Mkdir (extractDirOf corruptEnv jobId), Mkdir (outputDirOf corruptEnv jobId)]\<rparr>)"
proof -
  have f: "fsFault corruptEnv = noFault" and x: "extractAllTo corruptEnv = corruptArchive"
    by (simp_all add: corruptEnv_def)
  show ?thesis
    by (simp add: tryBlock_def fsCall_def f x noFault_def corruptArchive_def Let_def)
qed

lemma corrupt_run:
  "processFilesAsync corruptEnv jobId fileBuffer =
     \<lparr>processedPngs = 0,
      published = [extractingJob corruptEnv jobId,
        failedJob corruptEnv jobId ''Invalid or unsupported zip format. No END header found''],
      fsops = [Mkdir (extractDirOf corruptEnv jobId), Mkdir (outputDirOf corruptEnv jobId),
               Rm (tempDirOf corruptEnv jobId)]\<rparr>"
proof -
  have f: "fsFault corruptEnv = noFault"
    by (simp add: corruptEnv_def)
  have e: "existsSync corruptEnv s (tempDirOf corruptEnv jobId)"
    if "fsops s = [Mkdir (extractDirOf corruptEnv jobId), Mkdir (outputDirOf corruptEnv jobId)]"
    for s
    by (rule exists_after_mkdir) (simp add: that)
  show ?thesis
    by (simp add: processFilesAsync_def corrupt_try cleanupOnError_def setJob_def e f noFault_def)
qed



text \<open>
  A listing with a PNG file the codec rejects, then a text file, then a PNG file that
  converts: the walk from the state in which \<^verbatim>\<open>processFilesAsync\<close> starts it.
\<close>

lemma isPng_names: "isPng ''bad.png''" "isPng ''ok.png''" "\<not> isPng ''n.txt''"
  by code_simp+

lemma parseName_ok: "parseName ''ok.png'' = ''ok''"
  by code_simp

lemma convert_picky:
  "convert pickyCodec [0] = Inl (CodecError ''Input buffer contains unsupported image format'')"
  "convert pickyCodec [137, 80, 78, 71] = Inr [82, 73, 70, 70]"
  using riff_fits by (simp_all add: convert_def convertToWebP.simps pickyCodec_def)

lemma attempt_mixed:
  "\<not> attemptOk mixedEnv outputDir ''bad.png'' [0]"
  "attemptOk mixedEnv outputDir ''ok.png'' [137, 80, 78, 71]"
  by (simp_all add: attemptOk_def mixedEnv_def convert_picky noFault_def)

lemma counts_mixed:
  "countPngs mixedTree 0 = 2" "convertibleFiles mixedTree = 2"
  "succeededFiles mixedEnv outputDir mixedTree = 1"
  "failedFiles mixedEnv outputDir mixedTree = 1"
  by (simp_all add: mixedTree_def isPng_names attempt_mixed)

lemma mixed_tail:
  "processDirectory mixedEnv jobId 2 sourceDir outputDir [File ''ok.png'' [137, 80, 78, 71]]
     (s\<lparr>fsops := fsops s @ [CopyFile (join sourceDir ''n.txt'') (join outputDir ''n.txt'')]\<rparr>)
   = (None,
      \<lparr>processedPngs = processedPngs s + 1,
       published = published s @ [convertedJob mixedEnv jobId (processedPngs s + 1) 2],
       fsops = fsops s @ [CopyFile (join sourceDir ''n.txt'') (join outputDir ''n.txt''),
                          WriteFile (join outputDir ''ok.webp'') [82, 73, 70, 70]]\<rparr>)"
proof -
  have f: "fsFault mixedEnv = noFault" and c: "sharp mixedEnv = pickyCodec"
    by (simp_all add: mixedEnv_def)
  show ?thesis
    by (simp add: isPng_names convertFile_def c f convert_picky noFault_def parseName_ok
          setJob_def Let_def)
qed

section \<open>The claims about identifiers and submission\<close>

text \<open>
  C6. The claim is that two distinct submissions never get the same job identifier. The
  identifier is \<^verbatim>\<open>Date.now().toString()\<close> and nothing else: two uploads accepted in the
  same millisecond get the same identifier, hence the same registry key and the same
  temporary directory.
\<close>

theorem C6_same_millisecond_counterexample:
  "fst (submitJob 1700000000000 (Some [80, 75, 3, 4]) emptyServer)
     = JobAccepted ''1700000000000''
   \<and> fst (submitJob 1700000000000 (Some [80, 75, 5, 6])
            (snd (submitJob 1700000000000 (Some [80, 75, 3, 4]) emptyServer)))
     = JobAccepted ''1700000000000''
   \<and> immediates (snd (submitJob 1700000000000 (Some [80, 75, 5, 6])
            (snd (submitJob 1700000000000 (Some [80, 75, 3, 4]) emptyServer))))
     = [(''1700000000000'', [80, 75, 3, 4]), (''1700000000000'', [80, 75, 5, 6])]"
  by (simp add: submitJob_def emptyServer_def Let_def toString_example)

text \<open>
  C6 (amended). Two submissions whose clock readings \<^verbatim>\<open>Date.now()\<close> differ get different
  identifiers and different temporary directories (the identifier is the last component
  of the path). The registry is a map: under an identifier it holds the one record stored
  last, and storing under one identifier leaves every other identifier's record as it was.
\<close>

theorem C6_distinct_clock_distinct_ids:
  assumes "now1 \<noteq> now2"
  shows "fst (submitJob now1 (Some buf1) S1) = JobAccepted (toString now1)
   \<and> fst (submitJob now2 (Some buf2) S2) = JobAccepted (toString now2)
   \<and> toString now1 \<noteq> toString now2
   \<and> tempDirOf E (toString now1) \<noteq> tempDirOf E (toString now2)
   \<and> processingJobs (storeAll (toString now1) (rs @ [r]) S) (toString now1) = Some r
   \<and> processingJobs (storeAll (toString now1) (rs @ [r]) S) (toString now2)
       = processingJobs S (toString now2)"
proof -
  from assms have ne: "toString now1 \<noteq> toString now2"
    using toString_inj by blast
  then have "tempDirOf E (toString now1) \<noteq> tempDirOf E (toString now2)"
    using tempDirOf_inj by blast
  moreover have "processingJobs (storeAll (toString now1) (rs @ [r]) S) (toString now1) = Some r"
    using storeAll_last[of "rs @ [r]" "toString now1" S] by simp
  moreover have "processingJobs (storeAll (toString now1) (rs @ [r]) S) (toString now2)
       = processingJobs S (toString now2)"
    using ne storeAll_other[of "toString now2" "toString now1" "rs @ [r]" S] by simp
  ultimately show ?thesis using ne by (simp add: submitJob_def Let_def)
qed

theorem C6_distinct_clock_distinct_ids_witness:
  "(1700000000000 :: nat) \<noteq> 1700000000001
   \<and> toString 1700000000000 \<noteq> toString 1700000000001
   \<and> tempDirOf workingEnv (toString 1700000000000)
       \<noteq> tempDirOf workingEnv (toString 1700000000001)"
  using C6_distinct_clock_distinct_ids[of 1700000000000 1700000000001 _ _ _ _ workingEnv]
  by simp

text \<open>
  C7. The claim is that the record exists from the moment \<open>submitJob\<close> returns. The
  handler only schedules \<^verbatim>\<open>processFilesAsync\<close> with \<^verbatim>\<open>setImmediate\<close>; the record is written
  by the first statement of that task. A status request that arrives in between is
  answered with 404.
\<close>

theorem C7_status_before_task_counterexample:
  "fst (submitJob 1700000000000 (Some [80, 75, 3, 4]) emptyServer)
     = JobAccepted ''1700000000000''
   \<and> getStatus ''1700000000000''
        (snd (submitJob 1700000000000 (Some [80, 75, 3, 4]) emptyServer))
     = NotFound ''Job not found''"
  by (simp add: submitJob_def getStatus_def emptyServer_def Let_def toString_example)

text \<open>
  C7 (amended). Submission stores no record: it leaves the registry as it was and queues
  the task, so a status request between the response and the start of the task finds
  what was there before (nothing, for a fresh identifier). The record with status
  extracting and progress 0 is the first one the task stores; from then on, after any
  positive number \<open>k\<close> of the task's records has been stored, a status request finds a
  record, until the clean-up after a download deletes it.
\<close>

theorem C7_record_created_by_task:
  "processingJobs (snd (submitJob now upload S)) = processingJobs S
   \<and> (processingJobs S (toString now) = None \<longrightarrow>
        getStatus (toString now) (snd (submitJob now upload S)) = NotFound ''Job not found'')
   \<and> (upload = Some fileBuffer \<longrightarrow>
        immediates (snd (submitJob now upload S)) = immediates S @ [(toString now, fileBuffer)])
   \<and> hd (published (processFilesAsync E jobId fileBuffer)) = extractingJob E jobId
   \<and> status (extractingJob E jobId) = Extracting
   \<and> progress (extractingJob E jobId) = Some 0
   \<and> (1 \<le> k \<longrightarrow>
        getStatus jobId (storeAll jobId (take k (published (processFilesAsync E jobId fileBuffer))) S)
          = JobJson (last (take k (published (processFilesAsync E jobId fileBuffer)))))
   \<and> getStatus jobId (storeAll jobId (take 1 (published (processFilesAsync E jobId fileBuffer))) S)
          = JobJson (extractingJob E jobId)
   \<and> getStatus jobId (cleanupAfterDownload jobId S') = NotFound ''Job not found''
   \<and> (upload = Some fileBuffer \<and> immediates S = [] \<longrightarrow>
        getStatus (toString now) (runImmediate E (snd (submitJob now upload S)))
          = JobJson (last (published (processFilesAsync E (toString now) fileBuffer))))"
proof -
  let ?R = "published (processFilesAsync E jobId fileBuffer)"
  from published_first[of E jobId fileBuffer] obtain rest where R: "?R = extractingJob E jobId # rest"
    by blast
  have a: "processingJobs (snd (submitJob now upload S)) = processingJobs S"
    by (cases upload) (simp_all add: submitJob_def Let_def)
  have b: "processingJobs S (toString now) = None \<longrightarrow>
        getStatus (toString now) (snd (submitJob now upload S)) = NotFound ''Job not found''"
    using a by (simp add: getStatus_def)
  have c: "upload = Some fileBuffer \<longrightarrow>
        immediates (snd (submitJob now upload S)) = immediates S @ [(toString now, fileBuffer)]"
    by (simp add: submitJob_def Let_def)
  have d: "hd ?R = extractingJob E jobId" using R by simp
  have e: "status (extractingJob E jobId) = Extracting"
    and f: "progress (extractingJob E jobId) = Some 0"
    by (simp_all add: extractingJob_def)
  have g: "1 \<le> k \<longrightarrow> getStatus jobId (storeAll jobId (take k ?R) S) = JobJson (last (take k ?R))"
  proof
    assume "1 \<le> k"
    with R have "take k ?R \<noteq> []" by (cases k) simp_all
    then show "getStatus jobId (storeAll jobId (take k ?R) S) = JobJson (last (take k ?R))"
      by (simp add: getStatus_def storeAll_last)
  qed
  have h: "getStatus jobId (storeAll jobId (take 1 ?R) S) = JobJson (extractingJob E jobId)"
    using R by (simp add: getStatus_def storeAll_last)
  have i: "getStatus jobId (cleanupAfterDownload jobId S') = NotFound ''Job not found''"
    by (simp add: getStatus_def cleanupAfterDownload_def)
  have j: "upload = Some fileBuffer \<and> immediates S = [] \<longrightarrow>
        getStatus (toString now) (runImmediate E (snd (submitJob now upload S)))
          = JobJson (last (published (processFilesAsync E (toString now) fileBuffer)))"
  proof
    assume u: "upload = Some fileBuffer \<and> immediates S = []"
    from published_first[of E "toString now" fileBuffer]
    have ne: "published (processFilesAsync E (toString now) fileBuffer) \<noteq> []" by auto
    from u have "runImmediate E (snd (submitJob now upload S))
        = storeAll (toString now) (published (processFilesAsync E (toString now) fileBuffer))
            (S\<lparr>immediates := []\<rparr>)"
      by (simp add: runImmediate_def submitJob_def Let_def)
    with ne show "getStatus (toString now) (runImmediate E (snd (submitJob now upload S)))
          = JobJson (last (published (processFilesAsync E (toString now) fileBuffer)))"
      by (simp add: getStatus_def storeAll_last)
  qed
  from a b c d e f g h i j show ?thesis by (intro conjI)
qed

theorem C7_record_created_by_task_witness:
  "processingJobs emptyServer (toString 1700000000000) = None
   \<and> getStatus (toString 1700000000000)
        (snd (submitJob 1700000000000 (Some [80, 75, 3, 4]) emptyServer))
       = NotFound ''Job not found''
   \<and> (1 :: nat) \<le> 2
   \<and> getStatus ''1700000000000''
        (storeAll ''1700000000000''
           (take 2 (published (processFilesAsync workingEnv ''1700000000000'' [80, 75, 3, 4])))
           emptyServer)
       = JobJson (convertingJob workingEnv ''1700000000000'')"
proof -
  note t = C7_record_created_by_task[of 1700000000000 "Some [80, 75, 3, 4]" emptyServer
      "[80, 75, 3, 4]" workingEnv "''1700000000000''" 2 emptyServer]
  have a: "processingJobs emptyServer (toString 1700000000000) = None"
    by (simp add: emptyServer_def)
  from t have "processingJobs emptyServer (toString 1700000000000) = None \<longrightarrow>
        getStatus (toString 1700000000000)
          (snd (submitJob 1700000000000 (Some [80, 75, 3, 4]) emptyServer))
        = NotFound ''Job not found''"
    by (elim conjE)
  with a have b: "getStatus (toString 1700000000000)
        (snd (submitJob 1700000000000 (Some [80, 75, 3, 4]) emptyServer))
       = NotFound ''Job not found''" by blast
  have l: "last (take 2 (published (processFilesAsync workingEnv ''1700000000000'' [80, 75, 3, 4])))
      = convertingJob workingEnv ''1700000000000''"
    by (simp add: working_run)
  from t have "(1 :: nat) \<le> 2 \<longrightarrow>
        getStatus ''1700000000000''
          (storeAll ''1700000000000''
            (take 2 (published (processFilesAsync workingEnv ''1700000000000'' [80, 75, 3, 4])))
            emptyServer)
        = JobJson (last (take 2
            (published (processFilesAsync workingEnv ''1700000000000'' [80, 75, 3, 4]))))"
    by (elim conjE)
  with l have c: "getStatus ''1700000000000''
        (storeAll ''1700000000000''
           (take 2 (published (processFilesAsync workingEnv ''1700000000000'' [80, 75, 3, 4])))
           emptyServer)
       = JobJson (convertingJob workingEnv ''1700000000000'')" by simp
  from a b c show ?thesis by simp
qed

section \<open>The claims about counters and failures\<close>

lemma tryBlock_None:
  assumes "tryBlock E jobId fileBuffer = (None, s)"
  shows "\<exists>items s4. extractAllTo E fileBuffer = Inr items
     \<and> processDirectory E jobId (countPngs items 0) (extractDirOf E jobId)
           (outputDirOf E jobId) items (extractedState E jobId) = (None, s4)
     \<and> published s = published s4 @ [zippingJob E jobId,
                           completedJob E jobId (processedPngs s4) (countPngs items 0)]"
proof (cases "fsFault E (Mkdir (extractDirOf E jobId))")
  case (Some m)
  from tryBlock_mkdir_extract[OF Some, of fileBuffer] assms show ?thesis by simp
next
  case N1: None
  show ?thesis
  proof (cases "fsFault E (Mkdir (outputDirOf E jobId))")
    case (Some m)
    from tryBlock_mkdir_output[OF N1 Some, of fileBuffer] assms show ?thesis by simp
  next
    case N2: None
    show ?thesis
    proof (cases "extractAllTo E fileBuffer")
      case (Inl m)
      from tryBlock_extract[OF N1 N2 Inl] assms show ?thesis by simp
    next
      case (Inr items)
      obtain r4 s4 where w: "processDirectory E jobId (countPngs items 0) (extractDirOf E jobId)
           (outputDirOf E jobId) items (extractedState E jobId) = (r4, s4)"
        by (cases "processDirectory E jobId (countPngs items 0) (extractDirOf E jobId)
           (outputDirOf E jobId) items (extractedState E jobId)")
      show ?thesis
      proof (cases r4)
        case (Some e)
        from tryBlock_walk[OF N1 N2 Inr w[unfolded Some]] assms show ?thesis by simp
      next
        case N4: None
        show ?thesis
        proof (cases "fsFault E (WriteZip (outputZipPathOf E jobId))")
          case (Some m)
          from tryBlock_zip[OF N1 N2 Inr w[unfolded N4] Some] assms show ?thesis by simp
        next
          case N5: None
          from tryBlock_done[OF N1 N2 Inr w[unfolded N4] N5] assms
          have "published s = published s4 @ [zippingJob E jobId,
                           completedJob E jobId (processedPngs s4) (countPngs items 0)]"
            by auto
          with Inr w N4 show ?thesis by blast
        qed
      qed
    qed
  qed
qed

lemma completed_run:
  assumes "status (last (published (processFilesAsync E jobId fileBuffer))) = Completed"
  shows "\<exists>items. extractAllTo E fileBuffer = Inr items
     \<and> published (processFilesAsync E jobId fileBuffer) =
         [extractingJob E jobId, convertingJob E jobId]
           @ walkRecords E jobId (countPngs items 0) (succeededFiles E (outputDirOf E jobId) items)
           @ [zippingJob E jobId,
              completedJob E jobId (succeededFiles E (outputDirOf E jobId) items)
                (countPngs items 0)]"
proof -
  obtain r s where tb: "tryBlock E jobId fileBuffer = (r, s)"
    by (cases "tryBlock E jobId fileBuffer")
  show ?thesis
  proof (cases r)
    case (Some e)
    with tb have "published (processFilesAsync E jobId fileBuffer)
        = published s @ [failedJob E jobId (message e)]" by (simp add: processFilesAsync_failed)
    with assms show ?thesis by (simp add: failedJob_def)
  next
    case None
    with tb have p: "processFilesAsync E jobId fileBuffer = s"
      by (simp add: processFilesAsync_ok)
    from tryBlock_None[OF tb[unfolded None]] obtain items s4 where
      x: "extractAllTo E fileBuffer = Inr items"
      and w: "processDirectory E jobId (countPngs items 0) (extractDirOf E jobId)
           (outputDirOf E jobId) items (extractedState E jobId) = (None, s4)"
      and ps: "published s = published s4 @ [zippingJob E jobId,
                           completedJob E jobId (processedPngs s4) (countPngs items 0)]"
      by blast
    from job_walk(1)[OF w] job_walk(4)[OF w] ps p x show ?thesis by simp
  qed
qed

text \<open>
  C1. The claim is that a failed conversion is counted too, so that a completed job has
  \<open>processedFiles\<close> equal to the number N of convertible files. In the code
  \<^verbatim>\<open>processedPngs++\<close> is inside the \<^verbatim>\<open>try\<close> block, after the conversion and the write; the
  \<^verbatim>\<open>catch\<close> block only logs. With one PNG file whose conversion fails, the job completes
  with \<open>processedFiles = 0\<close> and \<open>totalFiles = 1\<close>.
\<close>

theorem C1_failed_file_not_counted_counterexample:
  "convertibleFiles onePngTree = 1
   \<and> failedFiles rejectingEnv (outputDirOf rejectingEnv ''1700000000000'') onePngTree = 1
   \<and> status (last (published (processFilesAsync rejectingEnv ''1700000000000'' [80, 75, 3, 4])))
        = Completed
   \<and> processedFiles (last (published (processFilesAsync rejectingEnv ''1700000000000'' [80, 75, 3, 4])))
        = Some 0
   \<and> totalFiles (last (published (processFilesAsync rejectingEnv ''1700000000000'' [80, 75, 3, 4])))
        = Some 1"
proof -
  have c: "sharp rejectingEnv = rejectingCodec" by (simp add: rejectingEnv_def)
  have "convertibleFiles onePngTree = 1"
    by (simp add: onePngTree_def isPng_a_png)
  moreover have "failedFiles rejectingEnv (outputDirOf rejectingEnv ''1700000000000'') onePngTree = 1"
    by (simp add: onePngTree_def isPng_a_png attemptOk_def c convert_rejecting_png)
  ultimately show ?thesis
    by (simp add: rejecting_run completedJob_def)
qed

text \<open>
  C1 (amended). \<open>processedFiles\<close> is incremented exactly once per convertible file whose
  conversion and write succeed, and not for a failed one. For every job that reaches
  completed over an extracted tree with N convertible files of which K fail, the walk
  published one record for each of the counts 1, ..., N - K in order, and the completed
  record has \<open>processedFiles = N - K\<close> and \<open>totalFiles\<close> the number counted before the walk,
  which is at least N.
\<close>

theorem C1_processed_counts_successes:
  assumes "status (last (published (processFilesAsync E jobId fileBuffer))) = Completed"
  shows "\<exists>items. extractAllTo E fileBuffer = Inr items
     \<and> published (processFilesAsync E jobId fileBuffer) =
         [extractingJob E jobId, convertingJob E jobId]
           @ walkRecords E jobId (countPngs items 0)
               (convertibleFiles items - failedFiles E (outputDirOf E jobId) items)
           @ [zippingJob E jobId,
              completedJob E jobId
                (convertibleFiles items - failedFiles E (outputDirOf E jobId) items)
                (countPngs items 0)]
     \<and> processedFiles (last (published (processFilesAsync E jobId fileBuffer)))
         = Some (convertibleFiles items - failedFiles E (outputDirOf E jobId) items)
     \<and> totalFiles (last (published (processFilesAsync E jobId fileBuffer)))
         = Some (countPngs items 0)
     \<and> convertibleFiles items - failedFiles E (outputDirOf E jobId) items
         = succeededFiles E (outputDirOf E jobId) items
     \<and> failedFiles E (outputDirOf E jobId) items \<le> convertibleFiles items
     \<and> convertibleFiles items \<le> countPngs items 0"
proof -
  from completed_run[OF assms] obtain items where
    x: "extractAllTo E fileBuffer = Inr items"
    and p: "published (processFilesAsync E jobId fileBuffer) =
         [extractingJob E jobId, convertingJob E jobId]
           @ walkRecords E jobId (countPngs items 0) (succeededFiles E (outputDirOf E jobId) items)
           @ [zippingJob E jobId,
              completedJob E jobId (succeededFiles E (outputDirOf E jobId) items)
                (countPngs items 0)]"
    by blast
  let ?out = "outputDirOf E jobId"
  from succeeded_plus_failed[of E ?out items]
  have d: "convertibleFiles items - failedFiles E ?out items = succeededFiles E ?out items"
    and l: "failedFiles E ?out items \<le> convertibleFiles items"
    by simp_all
  have pf: "processedFiles (last (published (processFilesAsync E jobId fileBuffer)))
         = Some (succeededFiles E ?out items)"
    and tf: "totalFiles (last (published (processFilesAsync E jobId fileBuffer)))
         = Some (countPngs items 0)"
    by (simp_all add: p completedJob_def)
  show ?thesis
    apply (rule exI[of _ items])
    apply (simp only: d)
    using x p pf tf l convertible_le_count[of items] apply simp
    done
qed

theorem C1_processed_counts_successes_witness:
  "status (last (published (processFilesAsync rejectingEnv ''1700000000000'' [80, 75, 3, 4])))
     = Completed
   \<and> processedFiles (last (published (processFilesAsync rejectingEnv ''1700000000000'' [80, 75, 3, 4])))
       = Some (convertibleFiles onePngTree
           - failedFiles rejectingEnv (outputDirOf rejectingEnv ''1700000000000'') onePngTree)
   \<and> convertibleFiles onePngTree
           - failedFiles rejectingEnv (outputDirOf rejectingEnv ''1700000000000'') onePngTree = 0"
proof -
  have h: "status (last (published (processFilesAsync rejectingEnv ''1700000000000'' [80, 75, 3, 4])))
     = Completed"
    by (simp add: rejecting_run completedJob_def)
  have x: "extractAllTo rejectingEnv [80, 75, 3, 4] = Inr onePngTree"
    by (simp add: rejectingEnv_def onePngArchive_def)
  from C1_processed_counts_successes[OF h] x
  have "processedFiles (last (published (processFilesAsync rejectingEnv ''1700000000000'' [80, 75, 3, 4])))
       = Some (convertibleFiles onePngTree
           - failedFiles rejectingEnv (outputDirOf rejectingEnv ''1700000000000'') onePngTree)"
    by auto
  moreover have c: "sharp rejectingEnv = rejectingCodec" by (simp add: rejectingEnv_def)
  have "convertibleFiles onePngTree
           - failedFiles rejectingEnv (outputDirOf rejectingEnv ''1700000000000'') onePngTree = 0"
    by (simp add: onePngTree_def isPng_a_png attemptOk_def c convert_rejecting_png)
  ultimately show ?thesis using h by simp
qed


text \<open>
  C8. A convertible file whose conversion fails (\<open>convert\<close> throws, or the write of the
  result throws) changes nothing: the \<^verbatim>\<open>try\<close>/\<^verbatim>\<open>catch\<close> leaves the state as it was, and
  the walk over a listing with such a file is the walk over the rest of the listing from
  the same state, so nothing is written for it and no record is published. The walk goes
  on with the next entry: a file that is not a PNG is copied, a PNG file that converts is
  written, counted and published. The only exceptions that leave the walk are those of the
  driver's own directory creation and file copies, never a conversion failure; without
  those the walk reaches the end of the listing, and a walk that reaches the end has
  counted exactly the files whose conversion succeeded and published one record for
  each. Hence, whatever the codec does, a job whose extraction, directory creation, copies
  and archive writing do not throw reaches completed, with the number of successful
  conversions as \<open>processedFiles\<close>, and never publishes a failed record.
\<close>

theorem C8_conversion_failure_absorbed:
  "(convert (sharp E) fileBuffer = Inl e \<longrightarrow> \<not> attemptOk E outputDir item fileBuffer)
   \<and> (\<not> attemptOk E outputDir item fileBuffer \<longrightarrow>
        convertFile E jobId totalPngs outputDir item fileBuffer s = s)
   \<and> (isPng item \<and> \<not> attemptOk E outputDir item fileBuffer \<longrightarrow>
        processDirectory E jobId totalPngs sourceDir outputDir (File item fileBuffer # rest) s
          = processDirectory E jobId totalPngs sourceDir outputDir rest s)
   \<and> (isPng item \<and> \<not> attemptOk E outputDir item fileBuffer \<and> \<not> isPng nextItem
        \<and> fsFault E (CopyFile (join sourceDir nextItem) (join outputDir nextItem)) = None \<longrightarrow>
        processDirectory E jobId totalPngs sourceDir outputDir
            (File item fileBuffer # File nextItem nextBuffer # rest) s
          = processDirectory E jobId totalPngs sourceDir outputDir rest
              (s\<lparr>fsops := fsops s @
                   [CopyFile (join sourceDir nextItem) (join outputDir nextItem)]\<rparr>))
   \<and> (isPng item \<and> \<not> attemptOk E outputDir item fileBuffer \<and> isPng nextItem
        \<and> attemptOk E outputDir nextItem nextBuffer \<longrightarrow>
        (\<exists>w. convert (sharp E) nextBuffer = Inr w \<and>
          processDirectory E jobId totalPngs sourceDir outputDir
              (File item fileBuffer # File nextItem nextBuffer # rest) s
            = processDirectory E jobId totalPngs sourceDir outputDir rest
                \<lparr>processedPngs = processedPngs s + 1,
                 published = published s
                   @ [convertedJob E jobId (processedPngs s + 1) totalPngs],
                 fsops = fsops s
                   @ [WriteFile (join outputDir (parseName nextItem @ ''.webp'')) w]\<rparr>))
   \<and> (\<forall>e' s'. processDirectory E jobId totalPngs sourceDir outputDir items s = (Some e', s')
        \<longrightarrow> (\<exists>m op. e' = FilesystemError m \<and> fsFault E op = Some m))
   \<and> (\<forall>s'. processDirectory E jobId totalPngs sourceDir outputDir items s = (None, s')
        \<longrightarrow> processedPngs s' = processedPngs s + succeededFiles E outputDir items
          \<and> published s' = published s @
               map (\<lambda>n. convertedJob E jobId n totalPngs)
                 [Suc (processedPngs s)..<Suc (processedPngs s')])
   \<and> ((\<forall>p. fsFault E (Mkdir p) = None) \<and> (\<forall>a b. fsFault E (CopyFile a b) = None) \<longrightarrow>
        fst (processDirectory E jobId totalPngs sourceDir outputDir items s) = None)
   \<and> ((\<forall>p. fsFault E (Mkdir p) = None) \<and> (\<forall>a b. fsFault E (CopyFile a b) = None)
        \<and> fsFault E (WriteZip (outputZipPathOf E jobId)) = None
        \<and> extractAllTo E archive = Inr tree \<longrightarrow>
        last (published (processFilesAsync E jobId archive))
          = completedJob E jobId (succeededFiles E (outputDirOf E jobId) tree)
              (countPngs tree 0)
        \<and> status (last (published (processFilesAsync E jobId archive))) = Completed
        \<and> (\<forall>r \<in> set (published (processFilesAsync E jobId archive)). status r \<noteq> Failed))"
proof -
  let ?walk = "processDirectory E jobId totalPngs sourceDir outputDir"
  have a: "convert (sharp E) fileBuffer = Inl e \<longrightarrow> \<not> attemptOk E outputDir item fileBuffer"
    by (simp add: attemptOk_def)
  have a': "\<not> attemptOk E outputDir item fileBuffer \<longrightarrow>
        convertFile E jobId totalPngs outputDir item fileBuffer s = s"
    using convertFile_cases[of E outputDir item fileBuffer jobId totalPngs s] by auto
  have skip: "?walk (File item fileBuffer # xs) s = ?walk xs s"
    if "isPng item \<and> \<not> attemptOk E outputDir item fileBuffer" for xs
    using that a' by simp
  have b: "isPng item \<and> \<not> attemptOk E outputDir item fileBuffer \<longrightarrow>
        ?walk (File item fileBuffer # rest) s = ?walk rest s"
    using skip by blast
  have b1: "isPng item \<and> \<not> attemptOk E outputDir item fileBuffer \<and> \<not> isPng nextItem
        \<and> fsFault E (CopyFile (join sourceDir nextItem) (join outputDir nextItem)) = None \<longrightarrow>
        ?walk (File item fileBuffer # File nextItem nextBuffer # rest) s
          = ?walk rest (s\<lparr>fsops := fsops s @
                   [CopyFile (join sourceDir nextItem) (join outputDir nextItem)]\<rparr>)"
  proof
    assume h: "isPng item \<and> \<not> attemptOk E outputDir item fileBuffer \<and> \<not> isPng nextItem
        \<and> fsFault E (CopyFile (join sourceDir nextItem) (join outputDir nextItem)) = None"
    then have "?walk (File item fileBuffer # File nextItem nextBuffer # rest) s
        = ?walk (File nextItem nextBuffer # rest) s" by (intro skip) simp
    also have "\<dots> = ?walk rest (s\<lparr>fsops := fsops s @
                   [CopyFile (join sourceDir nextItem) (join outputDir nextItem)]\<rparr>)"
      using h by (simp add: fsCall_ok)
    finally show "?walk (File item fileBuffer # File nextItem nextBuffer # rest) s
          = ?walk rest (s\<lparr>fsops := fsops s @
                   [CopyFile (join sourceDir nextItem) (join outputDir nextItem)]\<rparr>)" .
  qed
  have b2: "isPng item \<and> \<not> attemptOk E outputDir item fileBuffer \<and> isPng nextItem
        \<and> attemptOk E outputDir nextItem nextBuffer \<longrightarrow>
        (\<exists>w. convert (sharp E) nextBuffer = Inr w \<and>
          ?walk (File item fileBuffer # File nextItem nextBuffer # rest) s
            = ?walk rest
                \<lparr>processedPngs = processedPngs s + 1,
                 published = published s
                   @ [convertedJob E jobId (processedPngs s + 1) totalPngs],
                 fsops = fsops s
                   @ [WriteFile (join outputDir (parseName nextItem @ ''.webp'')) w]\<rparr>)"
  proof
    assume h: "isPng item \<and> \<not> attemptOk E outputDir item fileBuffer \<and> isPng nextItem
        \<and> attemptOk E outputDir nextItem nextBuffer"
    then have s1: "?walk (File item fileBuffer # File nextItem nextBuffer # rest) s
        = ?walk (File nextItem nextBuffer # rest) s" by (intro skip) simp
    from h convertFile_cases[of E outputDir nextItem nextBuffer jobId totalPngs s]
    obtain w where w: "convert (sharp E) nextBuffer = Inr w"
      and cf: "convertFile E jobId totalPngs outputDir nextItem nextBuffer s =
          \<lparr>processedPngs = processedPngs s + 1,
           published = published s @ [convertedJob E jobId (processedPngs s + 1) totalPngs],
           fsops = fsops s @ [WriteFile (join outputDir (parseName nextItem @ ''.webp'')) w]\<rparr>"
      by blast
    from h have "?walk (File nextItem nextBuffer # rest) s
        = ?walk rest (convertFile E jobId totalPngs outputDir nextItem nextBuffer s)" by simp
    with s1 cf w show "\<exists>w. convert (sharp E) nextBuffer = Inr w \<and>
          ?walk (File item fileBuffer # File nextItem nextBuffer # rest) s
            = ?walk rest
                \<lparr>processedPngs = processedPngs s + 1,
                 published = published s
                   @ [convertedJob E jobId (processedPngs s + 1) totalPngs],
                 fsops = fsops s
                   @ [WriteFile (join outputDir (parseName nextItem @ ''.webp'')) w]\<rparr>"
      by simp
  qed
  have c: "\<forall>e' s'. ?walk items s = (Some e', s')
        \<longrightarrow> (\<exists>m op. e' = FilesystemError m \<and> fsFault E op = Some m)"
    using walk_exn by blast
  have c1: "\<forall>s'. ?walk items s = (None, s')
        \<longrightarrow> processedPngs s' = processedPngs s + succeededFiles E outputDir items
          \<and> published s' = published s @
               map (\<lambda>n. convertedJob E jobId n totalPngs)
                 [Suc (processedPngs s)..<Suc (processedPngs s')]"
  proof (intro allI impI)
    fix s' assume w: "?walk items s = (None, s')"
    from walk_count[OF w] walk_walked[OF w]
    show "processedPngs s' = processedPngs s + succeededFiles E outputDir items
          \<and> published s' = published s @
               map (\<lambda>n. convertedJob E jobId n totalPngs)
                 [Suc (processedPngs s)..<Suc (processedPngs s')]"
      by (simp add: walked_def)
  qed
  have c2: "(\<forall>p. fsFault E (Mkdir p) = None) \<and> (\<forall>a b. fsFault E (CopyFile a b) = None) \<longrightarrow>
        fst (?walk items s) = None"
  proof
    assume nf: "(\<forall>p. fsFault E (Mkdir p) = None) \<and> (\<forall>a b. fsFault E (CopyFile a b) = None)"
    obtain r s' where w: "?walk items s = (r, s')" by (cases "?walk items s")
    from nf have "r = None" by (intro walk_no_fault[OF w]) simp_all
    with w show "fst (?walk items s) = None" by simp
  qed
  have d: "(\<forall>p. fsFault E (Mkdir p) = None) \<and> (\<forall>a b. fsFault E (CopyFile a b) = None)
        \<and> fsFault E (WriteZip (outputZipPathOf E jobId)) = None
        \<and> extractAllTo E archive = Inr tree \<longrightarrow>
        last (published (processFilesAsync E jobId archive))
          = completedJob E jobId (succeededFiles E (outputDirOf E jobId) tree)
              (countPngs tree 0)
        \<and> status (last (published (processFilesAsync E jobId archive))) = Completed
        \<and> (\<forall>r \<in> set (published (processFilesAsync E jobId archive)). status r \<noteq> Failed)"
  proof (intro impI, elim conjE)
    assume nf: "\<forall>p. fsFault E (Mkdir p) = None" "\<forall>a b. fsFault E (CopyFile a b) = None"
      "fsFault E (WriteZip (outputZipPathOf E jobId)) = None"
      and x: "extractAllTo E archive = Inr tree"
    have "fst (tryBlock E jobId archive) = None"
      using nf x by (intro no_fault_completes[of E jobId archive tree]) simp_all
    then obtain s5 where tb: "tryBlock E jobId archive = (None, s5)"
      by (cases "tryBlock E jobId archive") simp
    then have p: "processFilesAsync E jobId archive = s5" by (rule processFilesAsync_ok)
    from tryBlock_shape[OF tb] obtain t n where
      sh: "published s5 = [extractingJob E jobId, convertingJob E jobId] @ walkRecords E jobId t n
              @ [zippingJob E jobId, completedJob E jobId n t]"
      by auto
    have st: "status (last (published (processFilesAsync E jobId archive))) = Completed"
      by (simp add: p sh completedJob_def)
    from completed_run[OF st] x
    have l: "last (published (processFilesAsync E jobId archive))
          = completedJob E jobId (succeededFiles E (outputDirOf E jobId) tree)
              (countPngs tree 0)" by auto
    have "\<forall>r \<in> set (published (processFilesAsync E jobId archive)). status r \<noteq> Failed"
      by (auto simp add: p sh walkRecords_mem extractingJob_def convertingJob_def
            convertedJob_def zippingJob_def completedJob_def)
    with l st show "last (published (processFilesAsync E jobId archive))
          = completedJob E jobId (succeededFiles E (outputDirOf E jobId) tree)
              (countPngs tree 0)
        \<and> status (last (published (processFilesAsync E jobId archive))) = Completed
        \<and> (\<forall>r \<in> set (published (processFilesAsync E jobId archive)). status r \<noteq> Failed)"
      by simp
  qed
  from a a' b b1 b2 c c1 c2 d show ?thesis by (intro conjI)
qed

theorem C8_conversion_failure_absorbed_witness:
  "convert (sharp mixedEnv) [0]
     = Inl (CodecError ''Input buffer contains unsupported image format'')
   \<and> isPng ''bad.png''
   \<and> \<not> attemptOk mixedEnv (outputDirOf mixedEnv ''1700000000000'') ''bad.png'' [0]
   \<and> \<not> isPng ''n.txt''
   \<and> processDirectory mixedEnv ''1700000000000'' 2 (extractDirOf mixedEnv ''1700000000000'')
        (outputDirOf mixedEnv ''1700000000000'') mixedTree
        (extractedState mixedEnv ''1700000000000'')
       = (None,
          \<lparr>processedPngs = 1,
           published = [extractingJob mixedEnv ''1700000000000'',
                        convertingJob mixedEnv ''1700000000000'',
                        convertedJob mixedEnv ''1700000000000'' 1 2],
           fsops = [Mkdir (extractDirOf mixedEnv ''1700000000000''),
                    Mkdir (outputDirOf mixedEnv ''1700000000000''),
                    ExtractAllTo (extractDirOf mixedEnv ''1700000000000''),
                    CopyFile (join (extractDirOf mixedEnv ''1700000000000'') ''n.txt'')
                             (join (outputDirOf mixedEnv ''1700000000000'') ''n.txt''),
                    WriteFile (join (outputDirOf mixedEnv ''1700000000000'') ''ok.webp'')
                              [82, 73, 70, 70]]\<rparr>)
   \<and> extractAllTo mixedEnv [80, 75, 3, 4] = Inr mixedTree
   \<and> last (published (processFilesAsync mixedEnv ''1700000000000'' [80, 75, 3, 4]))
       = completedJob mixedEnv ''1700000000000'' 1 2
   \<and> status (last (published (processFilesAsync mixedEnv ''1700000000000'' [80, 75, 3, 4])))
       = Completed"
proof -
  let ?j = "''1700000000000''"
  let ?src = "extractDirOf mixedEnv ?j" and ?out = "outputDirOf mixedEnv ?j"
  let ?s = "extractedState mixedEnv ?j"
  note t = C8_conversion_failure_absorbed[where E = mixedEnv and fileBuffer = "[0]"
      and e = "CodecError ''Input buffer contains unsupported image format''"
      and outputDir = ?out and item = "''bad.png''" and jobId = ?j
      and totalPngs = 2 and sourceDir = ?src and s = ?s
      and nextItem = "''n.txt''" and nextBuffer = "[110, 111]"
      and rest = "[File ''ok.png'' [137, 80, 78, 71]]" and items = mixedTree
      and archive = "[80, 75, 3, 4]" and tree = mixedTree]
  have c: "sharp mixedEnv = pickyCodec" and f: "fsFault mixedEnv = noFault"
    by (simp_all add: mixedEnv_def)
  have h1: "convert (sharp mixedEnv) [0]
     = Inl (CodecError ''Input buffer contains unsupported image format'')"
    by (simp add: c convert_picky)
  from t have "convert (sharp mixedEnv) [0]
       = Inl (CodecError ''Input buffer contains unsupported image format'')
     \<longrightarrow> \<not> attemptOk mixedEnv ?out ''bad.png'' [0]"
    by (elim conjE)
  with h1 have h2: "\<not> attemptOk mixedEnv ?out ''bad.png'' [0]" by blast
  have cp: "fsFault mixedEnv (CopyFile (join ?src ''n.txt'') (join ?out ''n.txt'')) = None"
    by (simp add: f noFault_def)
  from t have "isPng ''bad.png'' \<and> \<not> attemptOk mixedEnv ?out ''bad.png'' [0]
        \<and> \<not> isPng ''n.txt''
        \<and> fsFault mixedEnv (CopyFile (join ?src ''n.txt'') (join ?out ''n.txt'')) = None \<longrightarrow>
        processDirectory mixedEnv ?j 2 ?src ?out
            (File ''bad.png'' [0] # File ''n.txt'' [110, 111]
               # [File ''ok.png'' [137, 80, 78, 71]]) ?s
          = processDirectory mixedEnv ?j 2 ?src ?out [File ''ok.png'' [137, 80, 78, 71]]
              (?s\<lparr>fsops := fsops ?s @ [CopyFile (join ?src ''n.txt'') (join ?out ''n.txt'')]\<rparr>)"
    by (elim conjE)
  with isPng_names h2 cp have "processDirectory mixedEnv ?j 2 ?src ?out
            (File ''bad.png'' [0] # File ''n.txt'' [110, 111]
               # [File ''ok.png'' [137, 80, 78, 71]]) ?s
          = processDirectory mixedEnv ?j 2 ?src ?out [File ''ok.png'' [137, 80, 78, 71]]
              (?s\<lparr>fsops := fsops ?s @ [CopyFile (join ?src ''n.txt'') (join ?out ''n.txt'')]\<rparr>)"
    by blast
  also have "\<dots> = (None,
      \<lparr>processedPngs = processedPngs ?s + 1,
       published = published ?s @ [convertedJob mixedEnv ?j (processedPngs ?s + 1) 2],
       fsops = fsops ?s @ [CopyFile (join ?src ''n.txt'') (join ?out ''n.txt''),
                          WriteFile (join ?out ''ok.webp'') [82, 73, 70, 70]]\<rparr>)"
    by (rule mixed_tail)
  finally have h3: "processDirectory mixedEnv ?j 2 ?src ?out mixedTree ?s
       = (None,
          \<lparr>processedPngs = 1,
           published = [extractingJob mixedEnv ?j, convertingJob mixedEnv ?j,
                        convertedJob mixedEnv ?j 1 2],
           fsops = [Mkdir ?src, Mkdir ?out, ExtractAllTo ?src,
                    CopyFile (join ?src ''n.txt'') (join ?out ''n.txt''),
                    WriteFile (join ?out ''ok.webp'') [82, 73, 70, 70]]\<rparr>)"
    by (simp add: mixedTree_def extractedState_def)
  have x: "extractAllTo mixedEnv [80, 75, 3, 4] = Inr mixedTree"
    by (simp add: mixedEnv_def mixedArchive_def)
  have nf: "(\<forall>p. fsFault mixedEnv (Mkdir p) = None)
        \<and> (\<forall>a b. fsFault mixedEnv (CopyFile a b) = None)
        \<and> fsFault mixedEnv (WriteZip (outputZipPathOf mixedEnv ?j)) = None"
    by (simp add: f noFault_def)
  from t have "(\<forall>p. fsFault mixedEnv (Mkdir p) = None)
        \<and> (\<forall>a b. fsFault mixedEnv (CopyFile a b) = None)
        \<and> fsFault mixedEnv (WriteZip (outputZipPathOf mixedEnv ?j)) = None
        \<and> extractAllTo mixedEnv [80, 75, 3, 4] = Inr mixedTree \<longrightarrow>
        last (published (processFilesAsync mixedEnv ?j [80, 75, 3, 4]))
          = completedJob mixedEnv ?j (succeededFiles mixedEnv ?out mixedTree)
              (countPngs mixedTree 0)
        \<and> status (last (published (processFilesAsync mixedEnv ?j [80, 75, 3, 4]))) = Completed
        \<and> (\<forall>r \<in> set (published (processFilesAsync mixedEnv ?j [80, 75, 3, 4])).
              status r \<noteq> Failed)"
    by (elim conjE)
  with nf x have "last (published (processFilesAsync mixedEnv ?j [80, 75, 3, 4]))
          = completedJob mixedEnv ?j (succeededFiles mixedEnv ?out mixedTree)
              (countPngs mixedTree 0)"
    and h5: "status (last (published (processFilesAsync mixedEnv ?j [80, 75, 3, 4]))) = Completed"
    by blast+
  then have h4: "last (published (processFilesAsync mixedEnv ?j [80, 75, 3, 4]))
       = completedJob mixedEnv ?j 1 2"
    by (simp add: counts_mixed)
  from h1 isPng_names(1) h2 isPng_names(3) h3 x h4 h5 show ?thesis by (intro conjI)
qed

text \<open>
  C10. In every record a job publishes that carries both counters, \<open>processedFiles\<close> is
  at most \<open>totalFiles\<close>. The walk attempts the regular files with the PNG extension; the
  counting pass counts every entry with that extension that is not a directory, from the
  same listing, so it counts each file the walk attempts.
\<close>

theorem C10_processed_le_total:
  "(\<forall>r \<in> set (published (processFilesAsync E jobId fileBuffer)).
      \<forall>p t. processedFiles r = Some p \<and> totalFiles r = Some t \<longrightarrow> p \<le> t)
   \<and> convertibleFiles items \<le> countPngs items 0
   \<and> succeededFiles E outputDir items \<le> countPngs items 0"
proof -
  have "\<forall>r \<in> set (published (processFilesAsync E jobId fileBuffer)).
      \<forall>p t. processedFiles r = Some p \<and> totalFiles r = Some t \<longrightarrow> p \<le> t"
  proof (intro ballI allI impI)
    fix r p t
    assume r: "r \<in> set (published (processFilesAsync E jobId fileBuffer))"
      and c: "processedFiles r = Some p \<and> totalFiles r = Some t"
    from run_records[OF r] c show "p \<le> t"
      by (auto simp add: extractingJob_def convertingJob_def zippingJob_def failedJob_def
            convertedJob_def completedJob_def)
  qed
  then show ?thesis
    using convertible_le_count[of items] succeeded_le_count[of E outputDir items] by simp
qed

theorem C10_processed_le_total_witness:
  "convertedJob workingEnv ''1700000000000'' 1 1
     \<in> set (published (processFilesAsync workingEnv ''1700000000000'' [80, 75, 3, 4]))
   \<and> processedFiles (convertedJob workingEnv ''1700000000000'' 1 1) = Some 1
   \<and> totalFiles (convertedJob workingEnv ''1700000000000'' 1 1) = Some 1
   \<and> (1 :: nat) \<le> 1
   \<and> convertibleFiles onePngTree \<le> countPngs onePngTree 0"
proof -
  note t = C10_processed_le_total[of workingEnv "''1700000000000''" "[80, 75, 3, 4]" onePngTree
      "''/out''"]
  have m: "convertedJob workingEnv ''1700000000000'' 1 1
     \<in> set (published (processFilesAsync workingEnv ''1700000000000'' [80, 75, 3, 4]))"
    by (simp add: working_run)
  have pf: "processedFiles (convertedJob workingEnv ''1700000000000'' 1 1) = Some 1"
    and tf: "totalFiles (convertedJob workingEnv ''1700000000000'' 1 1) = Some 1"
    by (simp_all add: convertedJob_def)
  from t m pf tf have le: "(1 :: nat) \<le> 1" by blast
  from t have "convertibleFiles onePngTree \<le> countPngs onePngTree 0" by (elim conjE)
  with m pf tf le show ?thesis by (intro conjI)
qed




section \<open>The claims about progress\<close>

lemma progressValues_append:
  "progressValues (xs @ ys) = progressValues xs @ progressValues ys"
  by (simp add: progressValues_def map_filter_def)

lemma progressValues_single:
  "progressValues [extractingJob E jobId] = [0]"
  "progressValues [convertingJob E jobId] = [10]"
  "progressValues [convertedJob E jobId k t] = [progressOf k t]"
  "progressValues [zippingJob E jobId] = [90]"
  "progressValues [completedJob E jobId n t] = []"
  "progressValues [failedJob E jobId msg] = []"
  by (simp_all add: progressValues_def map_filter_def nonTerminal_def extractingJob_def
        convertingJob_def convertedJob_def zippingJob_def completedJob_def failedJob_def)

lemma progressValues_map:
  "progressValues (map (\<lambda>k. convertedJob E jobId k t) ks) = map (\<lambda>k. progressOf k t) ks"
  by (induction ks)
     (simp_all add: progressValues_def map_filter_def nonTerminal_def convertedJob_def)

lemma progressValues_walk:
  "progressValues (walkRecords E jobId t n) = map (\<lambda>k. progressOf k t) [Suc 0..<Suc n]"
  by (simp only: walkRecords_def progressValues_map)

lemma sorted_progress_walk: "sorted (map (\<lambda>k. progressOf k t) [Suc 0..<Suc n])"
proof -
  have "sorted_wrt (\<lambda>x y. progressOf x t \<le> progressOf y t) [Suc 0..<Suc n]"
    by (rule sorted_wrt_mono_rel[OF _ sorted_upt[of "Suc 0" "Suc n"]])
       (simp add: progressOf_mono)
  then show ?thesis by (simp only: sorted_map)
qed

lemma sorted_stage_values:
  assumes "sorted xs" and "\<forall>x \<in> set xs. 10 \<le> x \<and> x \<le> (90 :: nat)"
  shows "sorted ([0] @ [10] @ xs)" and "sorted ([0] @ [10] @ xs @ [90])"
  using assms by (auto simp add: sorted_append)

lemma walk_values_range:
  "\<forall>x \<in> set (map (\<lambda>k. progressOf k t) [Suc 0..<Suc n]). 10 \<le> x \<and> x \<le> 90"
  using progressOf_range by auto

text \<open>
  C5. The progress values of the records a job publishes while its status is extracting,
  converting or zipping are non-decreasing in the order of publication, and each of those
  records has a progress value.
\<close>

theorem C5_progress_never_regresses:
  "sorted (progressValues (published (processFilesAsync E jobId fileBuffer)))
   \<and> (\<forall>r \<in> set (published (processFilesAsync E jobId fileBuffer)).
        nonTerminal r \<longrightarrow> progress r \<noteq> None)"
proof -
  let ?R = "published (processFilesAsync E jobId fileBuffer)"
  from run_shape[of E jobId fileBuffer] obtain t n where sh:
    "(\<exists>msg. ?R = [extractingJob E jobId, failedJob E jobId msg])
      \<or> (\<exists>msg. ?R = [extractingJob E jobId, convertingJob E jobId] @ walkRecords E jobId t n
              @ [failedJob E jobId msg])
      \<or> (\<exists>msg. ?R = [extractingJob E jobId, convertingJob E jobId] @ walkRecords E jobId t n
              @ [zippingJob E jobId, failedJob E jobId msg])
      \<or> ?R = [extractingJob E jobId, convertingJob E jobId] @ walkRecords E jobId t n
              @ [zippingJob E jobId, completedJob E jobId n t]"
    by (elim exE conjE)
  let ?W = "map (\<lambda>k. progressOf k t) [Suc 0..<Suc n]"
  note sv = sorted_stage_values[OF sorted_progress_walk[of t n] walk_values_range[of t n]]
  have pv: "progressValues ([extractingJob E jobId, convertingJob E jobId]
              @ walkRecords E jobId t n @ tl)
            = [0] @ [10] @ ?W @ progressValues tl" for tl
    using progressValues_append[of "[extractingJob E jobId]"
            "[convertingJob E jobId] @ walkRecords E jobId t n @ tl"]
          progressValues_append[of "[convertingJob E jobId]" "walkRecords E jobId t n @ tl"]
          progressValues_append[of "walkRecords E jobId t n" tl]
    by (simp add: progressValues_single progressValues_walk)
  have pz: "progressValues [zippingJob E jobId, r] = [90] @ progressValues [r]" for r
    using progressValues_append[of "[zippingJob E jobId]" "[r]"]
    by (simp add: progressValues_single)
  have s: "sorted (progressValues ?R)"
    using sh
  proof (elim disjE exE)
    fix msg assume "?R = [extractingJob E jobId, failedJob E jobId msg]"
    then have "progressValues ?R = [0]"
      using progressValues_append[of "[extractingJob E jobId]" "[failedJob E jobId msg]"]
      by (simp add: progressValues_single)
    then show ?thesis by simp
  next
    fix msg assume "?R = [extractingJob E jobId, convertingJob E jobId] @ walkRecords E jobId t n
              @ [failedJob E jobId msg]"
    then have "progressValues ?R = [0] @ [10] @ ?W"
      by (simp only: pv progressValues_single append_Nil2)
    then show ?thesis using sv(1) by simp
  next
    fix msg assume "?R = [extractingJob E jobId, convertingJob E jobId] @ walkRecords E jobId t n
              @ [zippingJob E jobId, failedJob E jobId msg]"
    then have "progressValues ?R = [0] @ [10] @ ?W @ [90]"
      by (simp only: pv pz progressValues_single append_Nil2)
    then show ?thesis using sv(2) by simp
  next
    assume "?R = [extractingJob E jobId, convertingJob E jobId] @ walkRecords E jobId t n
              @ [zippingJob E jobId, completedJob E jobId n t]"
    then have "progressValues ?R = [0] @ [10] @ ?W @ [90]"
      by (simp only: pv pz progressValues_single append_Nil2)
    then show ?thesis using sv(2) by simp
  qed
  have p: "\<forall>r \<in> set ?R. nonTerminal r \<longrightarrow> progress r \<noteq> None"
  proof (intro ballI impI)
    fix r assume r: "r \<in> set ?R" and nt: "nonTerminal r"
    from run_records[OF r] nt show "progress r \<noteq> None"
      by (auto simp add: nonTerminal_def extractingJob_def convertingJob_def zippingJob_def
            failedJob_def convertedJob_def completedJob_def)
  qed
  from s p show ?thesis by (rule conjI)
qed

theorem C5_progress_never_regresses_witness:
  "progressValues (published (processFilesAsync workingEnv ''1700000000000'' [80, 75, 3, 4]))
     = [0, 10, 80, 90]
   \<and> sorted (progressValues (published (processFilesAsync workingEnv ''1700000000000''
        [80, 75, 3, 4])))
   \<and> nonTerminal (zippingJob workingEnv ''1700000000000'')
   \<and> progress (zippingJob workingEnv ''1700000000000'') \<noteq> None"
proof -
  note t = C5_progress_never_regresses[of workingEnv "''1700000000000''" "[80, 75, 3, 4]"]
  have v: "progressValues (published (processFilesAsync workingEnv ''1700000000000'' [80, 75, 3, 4]))
     = [0, 10, 80, 90]"
    by (simp add: working_run progressValues_def map_filter_def nonTerminal_def
          extractingJob_def convertingJob_def convertedJob_def zippingJob_def completedJob_def
          progressOf_all)
  have m: "zippingJob workingEnv ''1700000000000''
      \<in> set (published (processFilesAsync workingEnv ''1700000000000'' [80, 75, 3, 4]))"
    by (simp add: working_run)
  have nt: "nonTerminal (zippingJob workingEnv ''1700000000000'')"
    by (simp add: nonTerminal_def zippingJob_def)
  from t have s: "sorted (progressValues (published (processFilesAsync workingEnv ''1700000000000''
        [80, 75, 3, 4])))" by (elim conjE)
  from t m nt have p: "progress (zippingJob workingEnv ''1700000000000'') \<noteq> None" by blast
  from v s nt p show ?thesis by (intro conjI)
qed

text \<open>
  C4. The claim is that the converting stage takes the progress value linearly from 10
  to 90, reaching 90 when all files are processed. The code adds to 10 the floor of
  \<open>processed / total * 70\<close>: with all files processed the value is 80, and 90 appears
  only with the zipping record.
\<close>

theorem C4_all_processed_is_80_counterexample:
  "progressOf 5 5 = 80
   \<and> progress (convertedJob workingEnv ''1700000000000'' 5 5) = Some 80
   \<and> map progress (published (processFilesAsync workingEnv ''1700000000000'' [80, 75, 3, 4]))
       = [Some 0, Some 10, Some 80, Some 90, Some 100]
   \<and> map status (published (processFilesAsync workingEnv ''1700000000000'' [80, 75, 3, 4]))
       = [Extracting, Converting, Converting, Zipping, Completed]"
  by (simp add: working_run extractingJob_def convertingJob_def convertedJob_def zippingJob_def
        completedJob_def progressOf_all)

text \<open>
  C4 (amended). During the converting stage the published progress value is
  \<open>min 90 (10 + floor (processed / total * 70))\<close> in double arithmetic: it starts at 10,
  never decreases as files are processed, stays within 1 below and \<open>2^-45\<close> above the line
  \<open>10 + 70 * processed / total\<close>, and is 80 when all \<open>total\<close> files have been processed. It
  never exceeds 90 (the cap is not reached while \<open>processed \<le> total\<close>); 90 is the value of
  the zipping record.
\<close>

theorem C4_progress_linear_to_80:
  "progress (convertingJob E jobId) = Some 10
   \<and> progress (convertedJob E jobId p t) = Some (progressOf p t)
   \<and> progressOf p t \<le> 90
   \<and> (p \<le> p' \<longrightarrow> progressOf p t \<le> progressOf p' t)
   \<and> (1 \<le> p \<and> p \<le> t \<longrightarrow>
        10 \<le> progressOf p t \<and> progressOf p t \<le> 80
        \<and> 10 + 70 * (of_nat p / of_nat t) - 1 - 1 / 2 ^ 45 < (of_nat (progressOf p t) :: rat)
        \<and> (of_nat (progressOf p t) :: rat) \<le> 10 + 70 * (of_nat p / of_nat t) + 1 / 2 ^ 45)
   \<and> (0 < t \<longrightarrow> progressOf t t = 80)
   \<and> progress (zippingJob E jobId) = Some 90"
proof -
  have a: "progress (convertingJob E jobId) = Some 10"
    and b: "progress (convertedJob E jobId p t) = Some (progressOf p t)"
    and g: "progress (zippingJob E jobId) = Some 90"
    by (simp_all add: convertingJob_def convertedJob_def zippingJob_def)
  have c: "progressOf p t \<le> 90" using progressOf_range by simp
  have d: "p \<le> p' \<longrightarrow> progressOf p t \<le> progressOf p' t"
    using progressOf_mono by blast
  have e: "1 \<le> p \<and> p \<le> t \<longrightarrow>
        10 \<le> progressOf p t \<and> progressOf p t \<le> 80
        \<and> 10 + 70 * (of_nat p / of_nat t) - 1 - 1 / 2 ^ 45 < (of_nat (progressOf p t) :: rat)
        \<and> (of_nat (progressOf p t) :: rat) \<le> 10 + 70 * (of_nat p / of_nat t) + 1 / 2 ^ 45"
  proof
    assume h: "1 \<le> p \<and> p \<le> t"
    then have p1: "1 \<le> p" and pt: "p \<le> t" and t0: "0 < t" by simp_all
    from progressOf_range have "10 \<le> progressOf p t" by simp
    moreover from pt t0 have "progressOf p t \<le> 80" by (rule progressOf_le_80)
    moreover note progressOf_linear[OF p1 pt]
    ultimately show "10 \<le> progressOf p t \<and> progressOf p t \<le> 80
        \<and> 10 + 70 * (of_nat p / of_nat t) - 1 - 1 / 2 ^ 45 < (of_nat (progressOf p t) :: rat)
        \<and> (of_nat (progressOf p t) :: rat) \<le> 10 + 70 * (of_nat p / of_nat t) + 1 / 2 ^ 45"
      by (intro conjI)
  qed
  have f: "0 < t \<longrightarrow> progressOf t t = 80" using progressOf_all by blast
  from a b c d e f g show ?thesis by (intro conjI)
qed

lemma progress_47_of_70: "progressOf 47 70 = 56"
  by code_simp

theorem C4_progress_linear_to_80_witness:
  "(1 :: nat) \<le> 47 \<and> (47 :: nat) \<le> 70
   \<and> progressOf 47 70 = 56
   \<and> 10 \<le> progressOf 47 70 \<and> progressOf 47 70 \<le> 80
   \<and> (0 :: nat) < 70 \<and> progressOf 70 70 = 80"
proof -
  note t = C4_progress_linear_to_80[of workingEnv "''1700000000000''" 47 70 47]
  from t have "1 \<le> (47 :: nat) \<and> (47 :: nat) \<le> 70 \<longrightarrow>
        10 \<le> progressOf 47 70 \<and> progressOf 47 70 \<le> 80
        \<and> 10 + 70 * (of_nat 47 / of_nat 70) - 1 - 1 / 2 ^ 45 < (of_nat (progressOf 47 70) :: rat)
        \<and> (of_nat (progressOf 47 70) :: rat) \<le> 10 + 70 * (of_nat 47 / of_nat 70) + 1 / 2 ^ 45"
    by (elim conjE)
  then have r: "10 \<le> progressOf 47 70 \<and> progressOf 47 70 \<le> 80" by simp
  note u = C4_progress_linear_to_80[of workingEnv "''1700000000000''" 70 70 70]
  from u have "(0 :: nat) < 70 \<longrightarrow> progressOf 70 70 = 80" by (elim conjE)
  then have a: "progressOf 70 70 = 80" by simp
  from r a progress_47_of_70 show ?thesis by simp
qed

end
